theory Spec2Isabelle
  imports Complex_Main "HOL-Library.Char_ord" "HOL-Library.List_Lexorder"
begin

section \<open>Python values\<close>

text \<open>
  The result trees of \<^verbatim>\<open>SnubaTSDB\<close> are dynamically typed nested dictionaries.
  A dictionary key is an integer or a string; a value is any of the Python values the
  code inspects. A dictionary is an association list in insertion order (Python
  dictionaries iterate in insertion order); a well-formed dictionary has distinct keys.
  The float scores of \<^verbatim>\<open>get_most_frequent\<close> are the integers \<^verbatim>\<open>float(i + 1)\<close>, which
  are exact, so a float is carried as a rational.
\<close>

datatype key = KInt int | KStr string

datatype pyval =
    VNone
  | VInt int
  | VFloat rat
  | VStr string
  | VList "pyval list"
  | VTuple "pyval list"
  | VDict "(key \<times> pyval) list"

datatype error =
    UnsupportedTSDBModel
  | ValueError
  | KeyError
  | TypeError
  | AttributeError
  | IndexError
  | ZeroDivisionError
  | AssertionError
  | ExternalError string

text \<open>Sequencing of fallible steps: the first raise ends the computation.\<close>

definition bind :: "error + 'a \<Rightarrow> ('a \<Rightarrow> error + 'b) \<Rightarrow> error + 'b" where
  "bind m f = (case m of Inl e \<Rightarrow> Inl e | Inr x \<Rightarrow> f x)"

fun mapM :: "('a \<Rightarrow> error + 'b) \<Rightarrow> 'a list \<Rightarrow> error + 'b list" where
  "mapM f [] = Inr []"
| "mapM f (x # xs) = bind (f x) (\<lambda>y. bind (mapM f xs) (\<lambda>ys. Inr (y # ys)))"

text \<open>The value a key denotes, and Python's \<^verbatim>\<open>==\<close> between a key and a value.\<close>

fun key_val :: "key \<Rightarrow> pyval" where
  "key_val (KInt i) = VInt i"
| "key_val (KStr s) = VStr s"

fun key_eq_val :: "key \<Rightarrow> pyval \<Rightarrow> bool" where
  "key_eq_val (KInt i) (VInt j) = (i = j)"
| "key_eq_val (KInt i) (VFloat q) = (of_int i = q)"
| "key_eq_val (KStr s) (VStr t) = (s = t)"
| "key_eq_val _ _ = False"

text \<open>Python truthiness, as \<^verbatim>\<open>if x:\<close> and \<^verbatim>\<open>x or []\<close> read it.\<close>

fun truthy :: "pyval \<Rightarrow> bool" where
  "truthy VNone = False"
| "truthy (VInt i) = (i \<noteq> 0)"
| "truthy (VFloat q) = (q \<noteq> 0)"
| "truthy (VStr s) = (s \<noteq> [])"
| "truthy (VList xs) = (xs \<noteq> [])"
| "truthy (VTuple xs) = (xs \<noteq> [])"
| "truthy (VDict kvs) = (kvs \<noteq> [])"

text \<open>\<^verbatim>\<open>t in s\<close> for two strings: \<open>t\<close> occurs in \<open>s\<close> as a contiguous substring.\<close>

fun is_prefix :: "string \<Rightarrow> string \<Rightarrow> bool" where
  "is_prefix [] s = True"
| "is_prefix (c # t) [] = False"
| "is_prefix (c # t) (d # s) = (c = d \<and> is_prefix t s)"

fun is_substring :: "string \<Rightarrow> string \<Rightarrow> bool" where
  "is_substring t [] = (t = [])"
| "is_substring t (d # s) = (is_prefix t (d # s) \<or> is_substring t s)"

text \<open>\<^verbatim>\<open>k in result\<close>: membership in a dictionary's keys, in a list or tuple, substring
  test on a string; any other operand is not iterable.\<close>

fun py_contains :: "pyval \<Rightarrow> key \<Rightarrow> error + bool" where
  "py_contains (VDict kvs) k = Inr (k \<in> set (map fst kvs))"
| "py_contains (VList xs) k = Inr (\<exists>x \<in> set xs. key_eq_val k x)"
| "py_contains (VTuple xs) k = Inr (\<exists>x \<in> set xs. key_eq_val k x)"
| "py_contains (VStr s) (KStr t) = Inr (is_substring t s)"
| "py_contains (VStr s) (KInt i) = Inl TypeError"
| "py_contains VNone k = Inl TypeError"
| "py_contains (VInt i) k = Inl TypeError"
| "py_contains (VFloat q) k = Inl TypeError"

text \<open>\<^verbatim>\<open>d[k] = v\<close> on a dictionary: an existing key keeps its position, a new key is
  appended.\<close>

fun dict_set :: "('k \<times> 'v) list \<Rightarrow> 'k \<Rightarrow> 'v \<Rightarrow> ('k \<times> 'v) list" where
  "dict_set [] k v = [(k, v)]"
| "dict_set ((k', v') # kvs) k v =
     (if k' = k then (k, v) # kvs else (k', v') # dict_set kvs k v)"

text \<open>\<^verbatim>\<open>result[k] = v\<close>: item assignment on a dictionary or a list (negative indices
  count from the end); other values do not support it.\<close>

fun py_setitem :: "pyval \<Rightarrow> key \<Rightarrow> pyval \<Rightarrow> error + pyval" where
  "py_setitem (VDict kvs) k v = Inr (VDict (dict_set kvs k v))"
| "py_setitem (VList xs) (KInt i) v =
     (let n = int (length xs); j = (if i < 0 then n + i else i)
      in if 0 \<le> j \<and> j < n then Inr (VList (xs[nat j := v])) else Inl IndexError)"
| "py_setitem (VList xs) (KStr s) v = Inl TypeError"
| "py_setitem _ k v = Inl TypeError"

section \<open>The key argument and its normalisation\<close>

text \<open>
  The \<^verbatim>\<open>keys\<close> argument of the TSDB methods: a mapping from a primary key to a
  collection of secondary keys, a sequence (list, tuple), a set, or a value of any other
  type. A Python set has no duplicates and no specified order: \<open>KSet xs\<close> lists the
  elements of the set once each, in the order the set iterates, and \<^verbatim>\<open>list(set(...))\<close>
  is modelled by \<^const>\<open>remdups\<close>; the theorems speak of the elements only, never of
  their order. The collections under a mapping are lists of keys.
\<close>

datatype pykeys =
    KMapping "(key \<times> key list) list"
  | KSeq "key list"
  | KSet "key list"
  | KOther

fun flatten_keys :: "pykeys \<Rightarrow> error + (key list \<times> key list option)" where
  "flatten_keys (KMapping items) =
     Inr (map fst items, Some (if items \<noteq> [] then remdups (concat (map snd items)) else []))"
| "flatten_keys (KSeq items) = Inr (items, None)"
| "flatten_keys (KSet items) = Inr (items, None)"
| "flatten_keys KOther = Inl ValueError"

section \<open>The result reshaper\<close>

type_synonym flat_keys = "(string \<times> key list) list"

text \<open>The loop \<^verbatim>\<open>for k in flat_keys[group]: if k not in result: result[k] = fill\<close>.\<close>

fun zerofill_keys :: "pyval \<Rightarrow> key list \<Rightarrow> pyval \<Rightarrow> error + pyval" where
  "zerofill_keys result [] fill = Inr result"
| "zerofill_keys result (k # ks) fill =
     bind (py_contains result k) (\<lambda>present.
       if present then zerofill_keys result ks fill
       else bind (py_setitem result k fill) (\<lambda>result'. zerofill_keys result' ks fill))"

text \<open>
  \<^verbatim>\<open>zerofill(result, groups, flat_keys)\<close>. The source mutates \<open>result\<close> in place;
  the model returns the new tree. \<^verbatim>\<open>flat_keys[group]\<close> raises KeyError for an
  unbound group, and the loop over \<^verbatim>\<open>result.values()\<close> runs only when subgroups remain.
\<close>

fun zerofill :: "pyval \<Rightarrow> string list \<Rightarrow> flat_keys \<Rightarrow> error + pyval" where
  "zerofill result [] flat_keys = Inr result"
| "zerofill result (grp # subgroups) flat_keys =
     (case map_of flat_keys grp of
        None \<Rightarrow> Inl KeyError
      | Some ks \<Rightarrow>
          bind (zerofill_keys result ks (if subgroups = [] then VInt 0 else VDict []))
            (\<lambda>result'.
               if subgroups \<noteq> [] then
                 (case result' of
                    VDict kvs \<Rightarrow>
                      bind (mapM (\<lambda>(k, v). bind (zerofill v subgroups flat_keys)
                                                (\<lambda>v'. Inr (k, v'))) kvs)
                        (\<lambda>kvs'. Inr (VDict kvs'))
                  | _ \<Rightarrow> Inl AttributeError)
               else Inr result'))"

text \<open>\<^verbatim>\<open>rk in keys\<close> and \<^verbatim>\<open>keys[rk]\<close> on the key argument.\<close>

fun keys_contains :: "pykeys \<Rightarrow> key \<Rightarrow> error + bool" where
  "keys_contains (KMapping items) rk = Inr (rk \<in> set (map fst items))"
| "keys_contains (KSeq items) rk = Inr (rk \<in> set items)"
| "keys_contains (KSet items) rk = Inr (rk \<in> set items)"
| "keys_contains KOther rk = Inl TypeError"

text \<open>
  \<^verbatim>\<open>trim(result, groups, keys)\<close>: a non-dictionary is left alone; under a group
  named \<^verbatim>\<open>time\<close> every key is kept and trimming goes on below with the same keys; under
  any other group a key not in \<open>keys\<close> is deleted, and a key in \<open>keys\<close> is trimmed
  further only when \<open>keys\<close> is a mapping, with that key's own collection.
\<close>

fun trim :: "pyval \<Rightarrow> string list \<Rightarrow> pykeys \<Rightarrow> error + pyval" where
  "trim result [] keys = Inr result"
| "trim (VDict kvs) (grp # subgroups) keys =
     bind (mapM (\<lambda>(rk, v).
             if grp = ''time'' then
               bind (trim v subgroups keys) (\<lambda>v'. Inr [(rk, v')])
             else
               bind (keys_contains keys rk) (\<lambda>present.
                 if present then
                   (case keys of
                      KMapping items \<Rightarrow>
                        (case map_of items rk of
                           Some sub \<Rightarrow> bind (trim v subgroups (KSeq sub)) (\<lambda>v'. Inr [(rk, v')])
                         | None \<Rightarrow> Inl KeyError)
                    | _ \<Rightarrow> Inr [(rk, v)])
                 else Inr [])) kvs)
       (\<lambda>kept. Inr (VDict (concat kept)))"
| "trim result (grp # subgroups) keys = Inr result"

text \<open>
  \<^verbatim>\<open>unnest(result, aggregated_as)\<close>: for each dictionary-valued entry, when
  \<^verbatim>\<open>val.get(aggregated_as)\<close> is truthy the entry is replaced by that value, otherwise
  the entry is unnested recursively.
\<close>

fun unnest :: "pyval \<Rightarrow> key \<Rightarrow> pyval" where
  "unnest (VDict kvs) aggregated_as =
     VDict (map (\<lambda>(k, val).
        (case val of
           VDict sub \<Rightarrow>
             (case map_of sub aggregated_as of
                Some x \<Rightarrow> if truthy x then (k, x) else (k, unnest val aggregated_as)
              | None \<Rightarrow> (k, unnest val aggregated_as))
         | _ \<Rightarrow> (k, val))) kvs)"
| "unnest result aggregated_as = result"

section \<open>The model registry\<close>

text \<open>
  \<^verbatim>\<open>TSDBModel\<close> and \<^verbatim>\<open>snuba.Dataset\<close> are enumerations declared outside this file.
  The models and datasets this file names are constructors; \<open>unlisted n\<close> is any other
  member of \<^verbatim>\<open>TSDBModel\<close> (the models of the filter-reason table among them).
\<close>

datatype TSDBModel =
    project | group' | group_performance | group_profiling | release
  | users_affected_by_group | users_affected_by_perf_group
  | users_affected_by_profile_group | users_affected_by_project
  | frequent_environments_by_group | frequent_releases_by_group
  | frequent_issues_by_project
  | organization_total_received | organization_total_rejected
  | organization_total_blacklisted
  | project_total_received | project_total_rejected | project_total_blacklisted
  | key_total_received | key_total_rejected | key_total_blacklisted
  | unlisted nat

datatype Dataset = Events | Transactions | IssuePlatform | Outcomes | OutcomesRaw

record SnubaModelQuerySettings =
  dataset :: Dataset
  groupby :: "string option"
  aggregate :: "string option"
  conditions :: "pyval list"
  selected_columns :: "pyval list option"

text \<open>The keyword arguments of the one call of \<^verbatim>\<open>snuba.query\<close>.\<close>

record request =
  q_dataset :: Dataset
  q_start :: int
  q_end :: int
  q_groupby :: "string list"
  q_conditions :: "pyval list"
  q_filter_keys :: flat_keys
  q_aggregations :: "pyval list"
  q_rollup :: int
  q_limit :: int
  q_orderby :: "string list"
  q_referrer :: string
  q_is_grouprelease :: bool
  q_use_cache :: bool
  q_selected_columns :: "pyval list option"

text \<open>
  What the file takes from outside: the constants it imports, the bucket planner and the
  jitter of \<^verbatim>\<open>BaseTSDB\<close>, the backend executor \<^verbatim>\<open>snuba.query\<close>, the builtin \<^verbatim>\<open>int\<close> on
  a string (\<open>None\<close> where it raises ValueError) and \<^verbatim>\<open>str(model.value)\<close>. Datetimes are
  seconds since the epoch; a bucket series is a list of such timestamps.
\<close>

record externals =
  error_categories :: pyval
  Outcome_ACCEPTED :: pyval
  Outcome_FILTERED :: pyval
  Outcome_RATE_LIMITED :: pyval
  PROFILE_TYPES :: pyval
  FILTER_STAT_KEYS_TO_VALUES :: "(string \<times> TSDBModel) list"
  model_value :: "TSDBModel \<Rightarrow> string"
  int_of_str :: "string \<Rightarrow> int option"
  get_optimal_rollup_series :: "int \<Rightarrow> int option \<Rightarrow> int option \<Rightarrow> error + (int \<times> int list)"
  add_jitter_to_series :: "int list \<Rightarrow> int \<Rightarrow> int \<Rightarrow> int option \<Rightarrow> error + int list"
  snuba_query :: "request \<Rightarrow> error + pyval"

definition OUTCOMES_CATEGORY_CONDITION :: "externals \<Rightarrow> pyval" where
  "OUTCOMES_CATEGORY_CONDITION ext =
     VList [VStr ''category'', VStr ''IN'', error_categories ext]"

definition TOTAL_RECEIVED_OUTCOMES :: "externals \<Rightarrow> pyval" where
  "TOTAL_RECEIVED_OUTCOMES ext =
     VList [Outcome_ACCEPTED ext, Outcome_FILTERED ext, Outcome_RATE_LIMITED ext]"

definition events_type_condition :: pyval where
  "events_type_condition = VList [VStr ''type'', VStr ''!='', VStr ''transaction'']"

definition search_issues_profile_condition :: "externals \<Rightarrow> pyval" where
  "search_issues_profile_condition ext =
     VList [VStr ''occurrence_type_id'', VStr ''IN'', PROFILE_TYPES ext]"

definition settings ::
  "Dataset \<Rightarrow> string \<Rightarrow> string option \<Rightarrow> pyval list \<Rightarrow> pyval list option
     \<Rightarrow> SnubaModelQuerySettings" where
  "settings d g a cs sel =
     \<lparr>dataset = d, groupby = Some g, aggregate = a, conditions = cs, selected_columns = sel\<rparr>"

definition array_join_columns :: "pyval list" where
  "array_join_columns = [VList [VStr ''arrayJoin'', VStr ''group_ids'', VStr ''group_id'']]"

fun non_outcomes_query_settings :: "externals \<Rightarrow> TSDBModel \<Rightarrow> SnubaModelQuerySettings option" where
  "non_outcomes_query_settings ext project =
     Some (settings Events ''project_id'' None [events_type_condition] None)"
| "non_outcomes_query_settings ext group' =
     Some (settings Events ''group_id'' None [events_type_condition] None)"
| "non_outcomes_query_settings ext group_performance =
     Some (settings Transactions ''group_id'' None [] (Some array_join_columns))"
| "non_outcomes_query_settings ext group_profiling =
     Some (settings IssuePlatform ''group_id'' None [search_issues_profile_condition ext] None)"
| "non_outcomes_query_settings ext release =
     Some (settings Events ''tags[sentry:release]'' None [events_type_condition] None)"
| "non_outcomes_query_settings ext users_affected_by_group =
     Some (settings Events ''group_id'' (Some ''tags[sentry:user]'') [events_type_condition] None)"
| "non_outcomes_query_settings ext users_affected_by_perf_group =
     Some (settings Transactions ''group_id'' (Some ''tags[sentry:user]'') []
             (Some array_join_columns))"
| "non_outcomes_query_settings ext users_affected_by_profile_group =
     Some (settings IssuePlatform ''group_id'' (Some ''tags[sentry:user]'')
             [search_issues_profile_condition ext] None)"
| "non_outcomes_query_settings ext users_affected_by_project =
     Some (settings Events ''project_id'' (Some ''tags[sentry:user]'') [events_type_condition] None)"
| "non_outcomes_query_settings ext frequent_environments_by_group =
     Some (settings Events ''group_id'' (Some ''environment'') [events_type_condition] None)"
| "non_outcomes_query_settings ext frequent_releases_by_group =
     Some (settings Events ''group_id'' (Some ''tags[sentry:release]'') [events_type_condition] None)"
| "non_outcomes_query_settings ext frequent_issues_by_project =
     Some (settings Events ''project_id'' (Some ''group_id'') [events_type_condition] None)"
| "non_outcomes_query_settings ext _ = None"

fun outcomes_partial_query_settings ::
  "externals \<Rightarrow> TSDBModel \<Rightarrow> SnubaModelQuerySettings option" where
  "outcomes_partial_query_settings ext organization_total_received =
     Some (settings Outcomes ''org_id'' (Some ''quantity'')
       [VList [VStr ''outcome'', VStr ''IN'', TOTAL_RECEIVED_OUTCOMES ext],
        OUTCOMES_CATEGORY_CONDITION ext] None)"
| "outcomes_partial_query_settings ext organization_total_rejected =
     Some (settings Outcomes ''org_id'' (Some ''quantity'')
       [VList [VStr ''outcome'', VStr ''='', Outcome_RATE_LIMITED ext],
        OUTCOMES_CATEGORY_CONDITION ext] None)"
| "outcomes_partial_query_settings ext organization_total_blacklisted =
     Some (settings Outcomes ''org_id'' (Some ''quantity'')
       [VList [VStr ''outcome'', VStr ''='', Outcome_FILTERED ext],
        OUTCOMES_CATEGORY_CONDITION ext] None)"
| "outcomes_partial_query_settings ext project_total_received =
     Some (settings Outcomes ''project_id'' (Some ''quantity'')
       [VList [VStr ''outcome'', VStr ''IN'', TOTAL_RECEIVED_OUTCOMES ext],
        OUTCOMES_CATEGORY_CONDITION ext] None)"
| "outcomes_partial_query_settings ext project_total_rejected =
     Some (settings Outcomes ''project_id'' (Some ''quantity'')
       [VList [VStr ''outcome'', VStr ''='', Outcome_RATE_LIMITED ext],
        OUTCOMES_CATEGORY_CONDITION ext] None)"
| "outcomes_partial_query_settings ext project_total_blacklisted =
     Some (settings Outcomes ''project_id'' (Some ''quantity'')
       [VList [VStr ''outcome'', VStr ''='', Outcome_FILTERED ext],
        OUTCOMES_CATEGORY_CONDITION ext] None)"
| "outcomes_partial_query_settings ext key_total_received =
     Some (settings Outcomes ''key_id'' (Some ''quantity'')
       [VList [VStr ''outcome'', VStr ''IN'', TOTAL_RECEIVED_OUTCOMES ext],
        OUTCOMES_CATEGORY_CONDITION ext] None)"
| "outcomes_partial_query_settings ext key_total_rejected =
     Some (settings Outcomes ''key_id'' (Some ''quantity'')
       [VList [VStr ''outcome'', VStr ''='', Outcome_RATE_LIMITED ext],
        OUTCOMES_CATEGORY_CONDITION ext] None)"
| "outcomes_partial_query_settings ext key_total_blacklisted =
     Some (settings Outcomes ''key_id'' (Some ''quantity'')
       [VList [VStr ''outcome'', VStr ''='', Outcome_FILTERED ext],
        OUTCOMES_CATEGORY_CONDITION ext] None)"
| "outcomes_partial_query_settings ext _ = None"

text \<open>
  The dictionary comprehension over \<^verbatim>\<open>FILTER_STAT_KEYS_TO_VALUES.items()\<close>: a model that
  several reasons map to keeps the entry of the last of them.
\<close>

definition project_filter_model_query_settings ::
  "externals \<Rightarrow> TSDBModel \<Rightarrow> SnubaModelQuerySettings option" where
  "project_filter_model_query_settings ext model =
     (case filter (\<lambda>(reason, m). m = model) (rev (FILTER_STAT_KEYS_TO_VALUES ext)) of
        [] \<Rightarrow> None
      | (reason, m) # _ \<Rightarrow>
          Some (settings Outcomes ''project_id'' (Some ''quantity'')
            [VList [VStr ''reason'', VStr ''='', VStr reason],
             VList [VStr ''outcome'', VStr ''IN'', TOTAL_RECEIVED_OUTCOMES ext],
             OUTCOMES_CATEGORY_CONDITION ext] None))"

text \<open>
  \<^verbatim>\<open>model_query_settings.get(model)\<close>: the three tables are chained into one
  dictionary, so an entry of a later table replaces one of an earlier table.
\<close>

definition model_query_settings ::
  "externals \<Rightarrow> TSDBModel \<Rightarrow> SnubaModelQuerySettings option" where
  "model_query_settings ext model =
     (case non_outcomes_query_settings ext model of
        Some s \<Rightarrow> Some s
      | None \<Rightarrow>
          (case outcomes_partial_query_settings ext model of
             Some s \<Rightarrow> Some s
           | None \<Rightarrow> project_filter_model_query_settings ext model))"

section \<open>The query builder\<close>

text \<open>\<^verbatim>\<open>str\<close> of an integer, for the aggregation name \<^verbatim>\<open>f"topK({limit})"\<close>.\<close>

fun str_nat :: "nat \<Rightarrow> string" where
  "str_nat n =
     (if n < 10 then [char_of (48 + n)] else str_nat (n div 10) @ [char_of (48 + n mod 10)])"

definition str_int :: "int \<Rightarrow> string" where
  "str_int i = (if i < 0 then CHR ''-'' # str_nat (nat (- i)) else str_nat (nat i))"

text \<open>Iterating over the key argument, its \<^verbatim>\<open>len\<close>, and \<^verbatim>\<open>int(x)\<close> on one key.\<close>

fun keys_iter :: "pykeys \<Rightarrow> error + key list" where
  "keys_iter (KMapping items) = Inr (map fst items)"
| "keys_iter (KSeq items) = Inr items"
| "keys_iter (KSet items) = Inr items"
| "keys_iter KOther = Inl TypeError"

text \<open>\<^verbatim>\<open>if keys:\<close> (the last case is not reached: \<^verbatim>\<open>flatten_keys\<close> has raised).\<close>

fun keys_nonempty :: "pykeys \<Rightarrow> bool" where
  "keys_nonempty (KMapping items) = (items \<noteq> [])"
| "keys_nonempty (KSeq items) = (items \<noteq> [])"
| "keys_nonempty (KSet items) = (items \<noteq> [])"
| "keys_nonempty KOther = False"

fun keys_len :: "pykeys \<Rightarrow> error + nat" where
  "keys_len (KMapping items) = Inr (length items)"
| "keys_len (KSeq items) = Inr (length items)"
| "keys_len (KSet items) = Inr (length items)"
| "keys_len KOther = Inl TypeError"

fun python_int :: "externals \<Rightarrow> key \<Rightarrow> error + int" where
  "python_int ext (KInt i) = Inr i"
| "python_int ext (KStr s) = (case int_of_str ext s of None \<Rightarrow> Inl ValueError | Some i \<Rightarrow> Inr i)"

text \<open>Lines 262-267: \<^verbatim>\<open>keys = list(set(map(lambda x: int(x), keys)))\<close> for the three
  key models.\<close>

definition get_data_keys :: "externals \<Rightarrow> TSDBModel \<Rightarrow> pykeys \<Rightarrow> error + pykeys" where
  "get_data_keys ext model keys =
     (if model \<in> set [key_total_received, key_total_blacklisted, key_total_rejected] then
        bind (keys_iter keys) (\<lambda>xs.
          bind (mapM (python_int ext) xs) (\<lambda>ints.
            Inr (KSeq (remdups (map KInt ints)))))
      else Inr keys)"

definition model_requires_manual_group_on_time :: "TSDBModel \<Rightarrow> bool" where
  "model_requires_manual_group_on_time model =
     (model \<in> set [group_profiling, users_affected_by_profile_group])"

definition group_on_time_column_alias :: string where
  "group_on_time_column_alias = ''time_t''"

definition aggregated_as :: string where
  "aggregated_as = ''aggregate''"

text \<open>Lines 289-300: the group-by list.\<close>

definition get_data_groupby ::
  "SnubaModelQuerySettings \<Rightarrow> TSDBModel \<Rightarrow> string \<Rightarrow> bool \<Rightarrow> bool \<Rightarrow> string list" where
  "get_data_groupby mqs model aggregation group_on_model group_on_time =
     (case (if group_on_model then groupby mqs else None) of Some g \<Rightarrow> [g] | None \<Rightarrow> [])
     @ (if group_on_time then
          (if \<not> model_requires_manual_group_on_time model then [''time'']
           else [group_on_time_column_alias])
        else [])
     @ (if aggregation = ''count()'' then
          (case aggregate mqs of Some a \<Rightarrow> [a] | None \<Rightarrow> [])
        else [])"

text \<open>Lines 297-301: \<open>model_aggregate\<close> after the special case of \<^verbatim>\<open>count()\<close>.\<close>

definition get_data_model_aggregate :: "SnubaModelQuerySettings \<Rightarrow> string \<Rightarrow> string option" where
  "get_data_model_aggregate mqs aggregation =
     (if aggregation = ''count()'' \<and> aggregate mqs \<noteq> None then None else aggregate mqs)"

definition manual_group_on_time_aggregation :: "int \<Rightarrow> string \<Rightarrow> pyval" where
  "manual_group_on_time_aggregation rollup time_column_alias =
     (let rollup_agg = (\<lambda>func.
            VList [VStr ''toUnixTimestamp'', VList [VList [VStr func, VStr ''timestamp'']],
                   VStr time_column_alias]);
          special_rollup =
            VList [VStr ''multiply'',
                   VList [VList [VStr ''intDiv'',
                                 VList [VList [VStr ''toUInt32'',
                                               VList [VList [VStr ''toUnixTimestamp'',
                                                             VStr ''timestamp'']]],
                                        VInt rollup]],
                          VInt rollup],
                   VStr time_column_alias]
      in if rollup = 60 then rollup_agg ''toStartOfMinute''
         else if rollup = 3600 then rollup_agg ''toStartOfHour''
         else if rollup = 3600 * 24 then rollup_agg ''toDate''
         else special_rollup)"

text \<open>Lines 309-320: the aggregation list.\<close>

definition get_data_aggregations ::
  "SnubaModelQuerySettings \<Rightarrow> TSDBModel \<Rightarrow> string \<Rightarrow> bool \<Rightarrow> int \<Rightarrow> pyval list" where
  "get_data_aggregations mqs model aggregation group_on_time rollup =
     [VList [VStr aggregation,
             (case get_data_model_aggregate mqs aggregation of
                Some a \<Rightarrow> VStr a | None \<Rightarrow> VNone),
             VStr aggregated_as]]
     @ (if group_on_time \<and> model_requires_manual_group_on_time model then
          [manual_group_on_time_aggregation rollup group_on_time_column_alias]
        else [])"

text \<open>
  Lines 303-307: \<^verbatim>\<open>dict(zip(columns, flatten_keys(keys)))\<close>, without the entries whose
  column or key list is \<^verbatim>\<open>None\<close>, then the environment filter.
\<close>

definition get_data_keys_map ::
  "SnubaModelQuerySettings \<Rightarrow> key list \<times> key list option \<Rightarrow> key list option \<Rightarrow> flat_keys" where
  "get_data_keys_map mqs flat environment_ids =
     (let zipped = dict_set [(groupby mqs, Some (fst flat))] (aggregate mqs) (snd flat);
          keys_map = concat (map (\<lambda>(k, v).
                        (case (k, v) of (Some k', Some v') \<Rightarrow> [(k', v')] | _ \<Rightarrow> [])) zipped)
      in case environment_ids of
           Some ids \<Rightarrow> dict_set keys_map ''environment'' ids
         | None \<Rightarrow> keys_map)"

text \<open>
  Line 328: \<^verbatim>\<open>min(10000, int(len(keys) * ((end - start).total_seconds() / rollup)))\<close>.
  The quotient is a float in the source and the exact rational here; the two agree
  whenever \<open>rollup\<close> divides the span, which is so for a series of buckets \<open>rollup\<close>
  apart. \<^verbatim>\<open>int\<close> truncates towards zero.
\<close>

definition py_trunc :: "rat \<Rightarrow> int" where
  "py_trunc x = (if 0 \<le> x then \<lfloor>x\<rfloor> else \<lceil>x\<rceil>)"

definition get_data_limit :: "nat \<Rightarrow> int \<Rightarrow> int \<Rightarrow> int \<Rightarrow> error + int" where
  "get_data_limit n start' end' rollup =
     (if rollup = 0 then Inl ZeroDivisionError
      else Inr (min 10000 (py_trunc (of_nat n * (of_int (end' - start') / of_int rollup)))))"

text \<open>Lines 335-342: the order-by list.\<close>

definition get_data_orderby ::
  "SnubaModelQuerySettings \<Rightarrow> TSDBModel \<Rightarrow> bool \<Rightarrow> bool \<Rightarrow> string list" where
  "get_data_orderby mqs model group_on_model group_on_time =
     (if group_on_time then
        (if \<not> model_requires_manual_group_on_time model then [''-time'']
         else [''-'' @ group_on_time_column_alias])
      else [])
     @ (case (if group_on_model then groupby mqs else None) of Some g \<Rightarrow> [g] | None \<Rightarrow> [])"

text \<open>What \<^verbatim>\<open>get_data\<close> has computed when it reaches \<^verbatim>\<open>if keys:\<close> (line 344).\<close>

record plan =
  pl_keys :: pykeys
  pl_settings :: SnubaModelQuerySettings
  pl_groupby :: "string list"
  pl_keys_map :: flat_keys
  pl_series :: "int list"
  pl_request :: request

definition get_data_plan ::
  "externals \<Rightarrow> TSDBModel \<Rightarrow> pykeys \<Rightarrow> int \<Rightarrow> int option \<Rightarrow> int option \<Rightarrow> key list option
     \<Rightarrow> string \<Rightarrow> bool \<Rightarrow> bool \<Rightarrow> pyval list option \<Rightarrow> bool \<Rightarrow> int option \<Rightarrow> error + plan" where
  "get_data_plan ext model keys0 start0 end0 rollup0 environment_ids aggregation
       group_on_model group_on_time conditions0 use_cache jitter_value =
     bind (get_data_keys ext model keys0) (\<lambda>keys.
     case model_query_settings ext model of
       None \<Rightarrow> Inl UnsupportedTSDBModel
     | Some mqs \<Rightarrow>
     let model_dataset = (if rollup0 = Some 10 \<and> dataset mqs = Outcomes then OutcomesRaw
                          else dataset mqs);
         groupby' = get_data_groupby mqs model aggregation group_on_model group_on_time
     in
     bind (flatten_keys keys) (\<lambda>flat.
     let keys_map = get_data_keys_map mqs flat environment_ids in
     bind (get_optimal_rollup_series ext start0 end0 rollup0) (\<lambda>(rollup, series0).
     let aggregations = get_data_aggregations mqs model aggregation group_on_time rollup in
     bind (add_jitter_to_series ext series0 start0 rollup jitter_value) (\<lambda>series.
     if series = [] then Inl IndexError else
     let start' = hd series; end' = last series + rollup in
     bind (keys_len keys) (\<lambda>n.
     bind (get_data_limit n start' end' rollup) (\<lambda>limit.
     let conditions' = (case conditions0 of Some cs \<Rightarrow> cs | None \<Rightarrow> []) @ conditions mqs;
         orderby = get_data_orderby mqs model group_on_model group_on_time
     in Inr \<lparr>pl_keys = keys, pl_settings = mqs, pl_groupby = groupby', pl_keys_map = keys_map,
             pl_series = series,
             pl_request = \<lparr>q_dataset = model_dataset, q_start = start', q_end = end',
               q_groupby = groupby', q_conditions = conditions', q_filter_keys = keys_map,
               q_aggregations = aggregations, q_rollup = rollup, q_limit = limit,
               q_orderby = orderby, q_referrer = ''tsdb-modelid:'' @ model_value ext model,
               q_is_grouprelease = (model = frequent_releases_by_group),
               q_use_cache = use_cache,
               q_selected_columns =
                 (case selected_columns mqs of
                    Some cols \<Rightarrow> if cols \<noteq> [] then Some cols else None
                  | None \<Rightarrow> None)\<rparr>\<rparr>))))))"

text \<open>
  \<^verbatim>\<open>get_data\<close>. The first component lists the requests sent to the backend executor
  (none or one), the second is the value returned or the exception raised.
\<close>

definition get_data ::
  "externals \<Rightarrow> TSDBModel \<Rightarrow> pykeys \<Rightarrow> int \<Rightarrow> int option \<Rightarrow> int option \<Rightarrow> key list option
     \<Rightarrow> string \<Rightarrow> bool \<Rightarrow> bool \<Rightarrow> pyval list option \<Rightarrow> bool \<Rightarrow> int option
     \<Rightarrow> request list \<times> (error + pyval)" where
  "get_data ext model keys0 start0 end0 rollup0 environment_ids aggregation
       group_on_model group_on_time conditions0 use_cache jitter_value =
     (case get_data_plan ext model keys0 start0 end0 rollup0 environment_ids aggregation
             group_on_model group_on_time conditions0 use_cache jitter_value of
        Inl e \<Rightarrow> ([], Inl e)
      | Inr pl \<Rightarrow>
          let manual = model_requires_manual_group_on_time model;
              (sent, queried) =
                (if keys_nonempty (pl_keys pl) then
                   ([pl_request pl],
                    bind (snuba_query ext (pl_request pl)) (\<lambda>result.
                      if q_selected_columns (pl_request pl) \<noteq> None
                      then Inr (unnest result (KStr aggregated_as)) else Inr result))
                 else ([], Inr (VDict [])));
              keys_map =
                (if group_on_time then
                   dict_set (pl_keys_map pl)
                     (if \<not> manual then ''time'' else group_on_time_column_alias)
                     (map KInt (pl_series pl))
                 else pl_keys_map pl)
          in (sent,
              bind queried (\<lambda>result.
              bind (zerofill result (pl_groupby pl) keys_map) (\<lambda>result.
              bind (trim result (pl_groupby pl) (pl_keys pl)) (\<lambda>result.
              if group_on_time \<and> manual then Inr (unnest result (KStr aggregated_as))
              else Inr result)))))"

section \<open>The query facade\<close>

definition environment_ids_of :: "key option \<Rightarrow> key list option" where
  "environment_ids_of environment_id =
     (case environment_id of Some e \<Rightarrow> Some [e] | None \<Rightarrow> None)"

fun key_int :: "key \<Rightarrow> int" where
  "key_int (KInt i) = i"
| "key_int (KStr s) = 0"

fun key_str :: "key \<Rightarrow> string" where
  "key_str (KStr s) = s"
| "key_str (KInt i) = []"

fun is_KInt :: "key \<Rightarrow> bool" where
  "is_KInt (KInt i) = True"
| "is_KInt (KStr s) = False"

text \<open>
  \<^verbatim>\<open>sorted(d.items())\<close>: the items of a dictionary as a list of pairs sorted by key
  (the keys of a dictionary differ, so the values are never compared). Integers and
  strings do not compare with each other.
\<close>

definition py_sorted_items :: "(key \<times> pyval) list \<Rightarrow> error + pyval" where
  "py_sorted_items items =
     (let tuple = (\<lambda>(k, v). VTuple [key_val k, v])
      in if list_all (\<lambda>(k, v). is_KInt k) items then
           Inr (VList (map tuple (sort_key (\<lambda>(k, v). key_int k) items)))
         else if list_all (\<lambda>(k, v). \<not> is_KInt k) items then
           Inr (VList (map tuple (sort_key (\<lambda>(k, v). key_str k) items)))
         else Inl TypeError)"

text \<open>
  \<^verbatim>\<open>{k: sorted(result[k].items()) for k in result}\<close>. The methods that end with it
  group on the model and on time, so \<^verbatim>\<open>zerofill\<close> has already called
  \<^verbatim>\<open>result.values()\<close> and \<open>result\<close> is a dictionary; iteration over another iterable
  is not modelled.
\<close>

definition series_of_result :: "pyval \<Rightarrow> error + pyval" where
  "series_of_result result =
     (case result of
        VDict kvs \<Rightarrow>
          bind (mapM (\<lambda>(k, v).
                  (case v of
                     VDict items \<Rightarrow> bind (py_sorted_items items) (\<lambda>l. Inr (k, l))
                   | _ \<Rightarrow> Inl AttributeError)) kvs)
            (\<lambda>kvs'. Inr (VDict kvs'))
      | _ \<Rightarrow> Inl TypeError)"

definition get_range ::
  "externals \<Rightarrow> TSDBModel \<Rightarrow> pykeys \<Rightarrow> int \<Rightarrow> int option \<Rightarrow> int option \<Rightarrow> key list option
     \<Rightarrow> pyval list option \<Rightarrow> bool \<Rightarrow> int option \<Rightarrow> request list \<times> (error + pyval)" where
  "get_range ext model keys start0 end0 rollup environment_ids conditions0 use_cache jitter_value =
     (case model_query_settings ext model of
        None \<Rightarrow> ([], Inl AssertionError)
      | Some mqs \<Rightarrow>
          let aggregate_function = (if dataset mqs = Outcomes then ''sum'' else ''count()'');
              (sent, result) = get_data ext model keys start0 end0 rollup environment_ids
                                 aggregate_function True True conditions0 use_cache jitter_value
          in (sent, bind result series_of_result))"

definition get_distinct_counts_series ::
  "externals \<Rightarrow> TSDBModel \<Rightarrow> pykeys \<Rightarrow> int \<Rightarrow> int option \<Rightarrow> int option \<Rightarrow> key option
     \<Rightarrow> request list \<times> (error + pyval)" where
  "get_distinct_counts_series ext model keys start0 end0 rollup environment_id =
     (let (sent, result) = get_data ext model keys start0 end0 rollup
                             (environment_ids_of environment_id) ''uniq'' True True None False None
      in (sent, bind result series_of_result))"

definition get_distinct_counts_totals ::
  "externals \<Rightarrow> TSDBModel \<Rightarrow> pykeys \<Rightarrow> int \<Rightarrow> int option \<Rightarrow> int option \<Rightarrow> key option
     \<Rightarrow> bool \<Rightarrow> int option \<Rightarrow> request list \<times> (error + pyval)" where
  "get_distinct_counts_totals ext model keys start0 end0 rollup environment_id use_cache
       jitter_value =
     get_data ext model keys start0 end0 rollup (environment_ids_of environment_id)
       ''uniq'' True False None use_cache jitter_value"

definition get_distinct_counts_union ::
  "externals \<Rightarrow> TSDBModel \<Rightarrow> pykeys \<Rightarrow> int \<Rightarrow> int option \<Rightarrow> int option \<Rightarrow> key option
     \<Rightarrow> request list \<times> (error + pyval)" where
  "get_distinct_counts_union ext model keys start0 end0 rollup environment_id =
     get_data ext model keys start0 end0 rollup (environment_ids_of environment_id)
       ''uniq'' False False None False None"

text \<open>\<^verbatim>\<open>reversed(x)\<close>: a list, a tuple, a string (its characters) or a dictionary (its
  keys) can be reversed; a number cannot.\<close>

fun py_reversed :: "pyval \<Rightarrow> error + pyval list" where
  "py_reversed (VList xs) = Inr (rev xs)"
| "py_reversed (VTuple xs) = Inr (rev xs)"
| "py_reversed (VStr s) = Inr (rev (map (\<lambda>c. VStr [c]) s))"
| "py_reversed (VDict kvs) = Inr (rev (map (\<lambda>(k, v). key_val k) kvs))"
| "py_reversed _ = Inl TypeError"

text \<open>\<^verbatim>\<open>[(v, float(i + 1)) for i, v in enumerate(xs)]\<close>, counting from \<open>i\<close>.\<close>

fun item_scores_from :: "nat \<Rightarrow> pyval list \<Rightarrow> pyval list" where
  "item_scores_from i [] = []"
| "item_scores_from i (v # vs) = VTuple [v, VFloat (of_nat (i + 1))] # item_scores_from (Suc i) vs"

text \<open>The body of the loop of \<^verbatim>\<open>get_most_frequent\<close> for one value of \<^verbatim>\<open>top\<close>.\<close>

definition most_frequent_scores :: "pyval \<Rightarrow> error + pyval" where
  "most_frequent_scores top' =
     bind (py_reversed (if truthy top' then top' else VList [])) (\<lambda>reversed.
       Inr (VList (rev (item_scores_from 0 reversed))))"

definition topK :: "int \<Rightarrow> string" where
  "topK limit = ''topK('' @ str_int limit @ '')''"

definition get_most_frequent ::
  "externals \<Rightarrow> TSDBModel \<Rightarrow> pykeys \<Rightarrow> int \<Rightarrow> int option \<Rightarrow> int option \<Rightarrow> int \<Rightarrow> key option
     \<Rightarrow> request list \<times> (error + pyval)" where
  "get_most_frequent ext model keys start0 end0 rollup limit environment_id =
     (let (sent, result) = get_data ext model keys start0 end0 rollup
                             (environment_ids_of environment_id) (topK limit)
                             True False None False None
      in (sent,
          bind result (\<lambda>result.
            case result of
              VDict kvs \<Rightarrow>
                bind (mapM (\<lambda>(k, top'). bind (most_frequent_scores top') (\<lambda>l. Inr (k, l))) kvs)
                  (\<lambda>kvs'. Inr (VDict kvs'))
            | _ \<Rightarrow> Inl AttributeError)))"

text \<open>
  A dictionary key made of a list item. The items of a topK list are strings or
  integers (the values of a tag or an id column); a list or a dictionary is not
  hashable, and the other hashable values are outside the type of keys.
\<close>

fun val_key :: "pyval \<Rightarrow> error + key" where
  "val_key (VInt i) = Inr (KInt i)"
| "val_key (VStr s) = Inr (KStr s)"
| "val_key _ = Inl TypeError"

text \<open>\<^verbatim>\<open>{v: float(i + 1) for i, v in enumerate(xs)}\<close>, counting from \<open>i\<close>; a repeated item
  keeps its place and takes the later score.\<close>

fun score_dict_from :: "nat \<Rightarrow> pyval list \<Rightarrow> (key \<times> pyval) list \<Rightarrow> error + (key \<times> pyval) list" where
  "score_dict_from i [] acc = Inr acc"
| "score_dict_from i (v # vs) acc =
     bind (val_key v) (\<lambda>k. score_dict_from (Suc i) vs (dict_set acc k (VFloat (of_nat (i + 1)))))"

definition most_frequent_series_of :: "(key \<times> pyval) list \<Rightarrow> error + pyval" where
  "most_frequent_series_of items =
     bind (mapM (\<lambda>(timestamp, topk).
             bind (py_reversed (if truthy topk then topk else VList [])) (\<lambda>reversed.
             bind (score_dict_from 0 reversed []) (\<lambda>scores.
               Inr (timestamp, VDict scores)))) items)
       py_sorted_items"

definition get_most_frequent_series ::
  "externals \<Rightarrow> TSDBModel \<Rightarrow> pykeys \<Rightarrow> int \<Rightarrow> int option \<Rightarrow> int option \<Rightarrow> int \<Rightarrow> key option
     \<Rightarrow> request list \<times> (error + pyval)" where
  "get_most_frequent_series ext model keys start0 end0 rollup limit environment_id =
     (let (sent, result) = get_data ext model keys start0 end0 rollup
                             (environment_ids_of environment_id) (topK limit)
                             True True None False None
      in (sent,
          bind result (\<lambda>result.
            case result of
              VDict kvs \<Rightarrow>
                bind (mapM (\<lambda>(k, v).
                        (case v of
                           VDict items \<Rightarrow> bind (most_frequent_series_of items) (\<lambda>l. Inr (k, l))
                         | _ \<Rightarrow> Inl AttributeError)) kvs)
                  (\<lambda>kvs'. Inr (VDict kvs'))
            | _ \<Rightarrow> Inl AttributeError)))"

definition get_frequency_series ::
  "externals \<Rightarrow> TSDBModel \<Rightarrow> pykeys \<Rightarrow> int \<Rightarrow> int option \<Rightarrow> int option \<Rightarrow> key option
     \<Rightarrow> request list \<times> (error + pyval)" where
  "get_frequency_series ext model items start0 end0 rollup environment_id =
     (let (sent, result) = get_data ext model items start0 end0 rollup
                             (environment_ids_of environment_id) ''count()'' True True
                             None False None
      in (sent, bind result series_of_result))"

definition get_frequency_totals ::
  "externals \<Rightarrow> TSDBModel \<Rightarrow> pykeys \<Rightarrow> int \<Rightarrow> int option \<Rightarrow> int option \<Rightarrow> key option
     \<Rightarrow> request list \<times> (error + pyval)" where
  "get_frequency_totals ext model items start0 end0 rollup environment_id =
     get_data ext model items start0 end0 rollup (environment_ids_of environment_id)
       ''count()'' True False None False None"

section \<open>Reading a result tree\<close>

text \<open>
  The value under a path of keys, \<^verbatim>\<open>tree[k1][k2]...\<close>, when every key on the way is
  present in a dictionary.
\<close>

fun tree_get :: "pyval \<Rightarrow> key list \<Rightarrow> pyval option" where
  "tree_get v [] = Some v"
| "tree_get (VDict kvs) (k # p) =
     (case map_of kvs k of None \<Rightarrow> None | Some v \<Rightarrow> tree_get v p)"
| "tree_get _ (k # p) = None"

text \<open>A tree nested \<open>n\<close> levels deep: dictionaries of dictionaries, down to values of any
  kind at depth \<open>n\<close>. This is the shape of a backend response for \<open>n\<close> grouping columns.\<close>

fun shaped :: "pyval \<Rightarrow> nat \<Rightarrow> bool" where
  "shaped v 0 = True"
| "shaped (VDict kvs) (Suc n) = list_all (\<lambda>(k, v). shaped v n) kvs"
| "shaped _ (Suc n) = False"

text \<open>A complete tree: at every grouping level, every expected key of that level is a
  key of every dictionary of that level.\<close>

fun complete_tree :: "pyval \<Rightarrow> string list \<Rightarrow> flat_keys \<Rightarrow> bool" where
  "complete_tree v [] fk = True"
| "complete_tree (VDict kvs) (g # gs) fk =
     (case map_of fk g of
        None \<Rightarrow> False
      | Some ks \<Rightarrow> list_all (\<lambda>k. k \<in> set (map fst kvs)) ks
                 \<and> list_all (\<lambda>(k, v). complete_tree v gs fk) kvs)"
| "complete_tree _ (g # gs) fk = False"

text \<open>
  The paths that a zero-filled tree must have: at each level a key of the response, or
  an expected key of that level under which the response had nothing.
\<close>

fun present :: "pyval \<Rightarrow> string list \<Rightarrow> flat_keys \<Rightarrow> key list \<Rightarrow> bool" where
  "present r gs fk [] = True"
| "present r [] fk (k # p) = False"
| "present r (g # gs) fk (k # p) =
     (case tree_get r [k] of
        Some v \<Rightarrow> present v gs fk p
      | None \<Rightarrow>
          (case map_of fk g of
             Some ks \<Rightarrow> k \<in> set ks \<and> present (VDict []) gs fk p
           | None \<Rightarrow> False))"

text \<open>What \<^verbatim>\<open>zerofill\<close> makes of a response \<open>r\<close>: the tree \<open>z\<close> is complete, it has the
  paths of \<^const>\<open>present\<close> and no other, a path that ends at the last level holds the
  response's value or 0, and a shorter path holds a dictionary.\<close>

definition zerofilled :: "pyval \<Rightarrow> string list \<Rightarrow> flat_keys \<Rightarrow> pyval \<Rightarrow> bool" where
  "zerofilled r gs fk z \<longleftrightarrow>
     complete_tree z gs fk \<and> shaped z (length gs)
     \<and> (\<forall>p. length p \<le> length gs \<longrightarrow> (tree_get z p \<noteq> None) = present r gs fk p)
     \<and> (\<forall>p. length p = length gs \<and> present r gs fk p \<longrightarrow>
            tree_get z p = Some (case tree_get r p of Some v \<Rightarrow> v | None \<Rightarrow> VInt 0))
     \<and> (\<forall>p. length p < length gs \<and> present r gs fk p \<longrightarrow>
            (\<exists>kvs. tree_get z p = Some (VDict kvs)))"

section \<open>The keys that trimming keeps\<close>

text \<open>The keys of the key argument: the primary keys of a mapping, the elements of a flat
  collection.\<close>

fun keys_list :: "pykeys \<Rightarrow> key list" where
  "keys_list (KMapping items) = map fst items"
| "keys_list (KSeq items) = items"
| "keys_list (KSet items) = items"
| "keys_list KOther = []"

text \<open>
  The key set that applies one level down, under the key \<open>k\<close> of a level grouped by \<open>g\<close>
  (\<open>None\<close>: nothing is filtered there): a level named \<^verbatim>\<open>time\<close> passes the key set on; under
  another level a mapping gives the collection of \<open>k\<close>, and a flat collection gives nothing.
\<close>

fun descend :: "pykeys option \<Rightarrow> string \<Rightarrow> key \<Rightarrow> pykeys option" where
  "descend None g k = None"
| "descend (Some keys) g k =
     (if g = ''time'' then Some keys
      else (case keys of
              KMapping items \<Rightarrow>
                (case map_of items k of Some sub \<Rightarrow> Some (KSeq sub) | None \<Rightarrow> None)
            | _ \<Rightarrow> None))"

text \<open>Whether the key \<open>k\<close> stays at a level grouped by \<open>g\<close>.\<close>

fun allowed :: "pykeys option \<Rightarrow> string \<Rightarrow> key \<Rightarrow> bool" where
  "allowed None g k = True"
| "allowed (Some keys) g k = (g = ''time'' \<or> k \<in> set (keys_list keys))"

text \<open>Whether every key of a path stays, and the key set that applies at its end.\<close>

fun kept :: "pykeys option \<Rightarrow> string list \<Rightarrow> key list \<Rightarrow> bool" where
  "kept keys gs [] = True"
| "kept keys [] (k # p) = True"
| "kept keys (g # gs) (k # p) = (allowed keys g k \<and> kept (descend keys g k) gs p)"




section \<open>A test double of the collaborators\<close>

text \<open>
  For evaluating the methods on concrete inputs: a planner that returns the two hourly
  buckets 0 and 3600 whatever the range, no jitter, \<^verbatim>\<open>int\<close> on strings of decimal
  digits, one filter reason, and a backend that answers every request with \<open>response\<close>.
\<close>

definition digits_to_int :: "string \<Rightarrow> int option" where
  "digits_to_int s =
     (if s \<noteq> [] \<and> list_all (\<lambda>c. CHR ''0'' \<le> c \<and> c \<le> CHR ''9'') s
      then Some (foldl (\<lambda>a c. 10 * a + (int (of_char c) - 48)) 0 s) else None)"

definition test_externals :: "pyval \<Rightarrow> externals" where
  "test_externals response =
     \<lparr>error_categories = VList [VInt 0, VInt 1, VInt 5],
      Outcome_ACCEPTED = VInt 0, Outcome_FILTERED = VInt 1, Outcome_RATE_LIMITED = VInt 2,
      PROFILE_TYPES = VList [VInt 2000],
      FILTER_STAT_KEYS_TO_VALUES = [(''ip-address'', unlisted 0)],
      model_value = (\<lambda>m. ''0''),
      int_of_str = digits_to_int,
      get_optimal_rollup_series = (\<lambda>start0 end0 rollup. Inr (3600, [0, 3600])),
      add_jitter_to_series = (\<lambda>series start0 rollup jitter_value. Inr series),
      snuba_query = (\<lambda>req. Inr response)\<rparr>"

section \<open>Properties: sequencing\<close>

lemma bind_Inr [simp]: "bind (Inr x) f = f x"
  by (simp add: bind_def)

lemma bind_Inl [simp]: "bind (Inl e) f = Inl e"
  by (simp add: bind_def)

lemma bind_eq_Inr: "bind m f = Inr y \<longleftrightarrow> (\<exists>x. m = Inr x \<and> f x = Inr y)"
  by (cases m) simp_all

lemma mapM_Inr:
  "(\<And>x. x \<in> set xs \<Longrightarrow> f x = Inr (g x)) \<Longrightarrow> mapM f xs = Inr (map g xs)"
  by (induction xs) simp_all

section \<open>Properties: key normalisation\<close>

text \<open>
  C4. \<^verbatim>\<open>flatten_keys\<close> on a mapping returns the list of its keys and the union of its
  value collections without duplicates; on a sequence or a set it returns the input and
  no secondary keys; on a value of any other type it raises ValueError. The mapping
  \<^verbatim>\<open>{1: [10, 11], 2: [12]}\<close> gives the primary keys 1, 2 and the secondary keys
  10, 11, 12.
\<close>

theorem flatten_keys_spec:
  "(\<exists>sec. flatten_keys (KMapping m) = Inr (map fst m, Some sec)
            \<and> distinct sec \<and> set sec = (\<Union>v \<in> set (map snd m). set v))
   \<and> flatten_keys (KSeq xs) = Inr (xs, None)
   \<and> flatten_keys (KSet xs) = Inr (xs, None)
   \<and> flatten_keys KOther = Inl ValueError
   \<and> (\<exists>sec. flatten_keys (KMapping [(KInt 1, [KInt 10, KInt 11]), (KInt 2, [KInt 12])])
               = Inr ([KInt 1, KInt 2], Some sec)
             \<and> set sec = {KInt 10, KInt 11, KInt 12})"
  by auto

section \<open>Unnesting\<close>

text \<open>
  C7. The claim is that \<^verbatim>\<open>unnest\<close> replaces every nested mapping that contains the
  aggregate alias by the alias's value. The source tests \<^verbatim>\<open>val.get(aggregated_as)\<close> for
  truth, so a row whose aggregate is 0 is not replaced: the result
  \<^verbatim>\<open>{1: {"group_id": 1, "aggregate": 0}}\<close> comes back as it went in.
\<close>

theorem unnest_falsy_aggregate:
  "unnest (VDict [(KInt 1, VDict [(KStr ''group_id'', VInt 1), (KStr ''aggregate'', VInt 0)])])
          (KStr ''aggregate'')
   = VDict [(KInt 1, VDict [(KStr ''group_id'', VInt 1), (KStr ''aggregate'', VInt 0)])]"
  by simp

section \<open>Most-frequent scores\<close>

lemma item_scores_from_rev:
  "rev (item_scores_from i (rev xs))
   = map2 (\<lambda>x s. VTuple [x, VFloat (of_nat s)]) xs (rev [Suc i..<Suc i + length xs])"
proof (induction xs arbitrary: i rule: rev_induct)
  case Nil
  then show ?case by simp
next
  case (snoc x xs)
  let ?f = "\<lambda>x s. VTuple [x, VFloat (of_nat s)]"
  define ss where "ss = rev [Suc (Suc i)..<Suc (Suc i) + length xs]"
  have len: "length xs = length ss"
    unfolding ss_def length_rev length_upt by simp
  have "[Suc i..<Suc i + length (xs @ [x])] = Suc i # [Suc (Suc i)..<Suc (Suc i) + length xs]"
    using upt_conv_Cons [of "Suc i" "Suc i + length (xs @ [x])"] by simp
  then have upt: "rev [Suc i..<Suc i + length (xs @ [x])] = ss @ [Suc i]"
    unfolding ss_def by (simp only: rev.simps)
  have "rev (item_scores_from i (rev (xs @ [x])))
        = rev (item_scores_from (Suc i) (rev xs)) @ [?f x (Suc i)]"
    by simp
  also have "\<dots> = map2 ?f xs ss @ [?f x (Suc i)]"
    unfolding ss_def by (simp only: snoc [of "Suc i"])
  also have "\<dots> = map2 ?f (xs @ [x]) (ss @ [Suc i])"
    using len by simp
  finally show ?case
    by (simp only: upt)
qed

lemma most_frequent_scores_list:
  "most_frequent_scores (VList xs)
   = Inr (VList (map2 (\<lambda>x s. VTuple [x, VFloat (of_nat s)]) xs (rev [1..<Suc (length xs)])))"
  using item_scores_from_rev [of 0 xs]
  by (cases xs) (simp_all add: most_frequent_scores_def)

lemma most_frequent_scores_falsy:
  "\<not> truthy v \<Longrightarrow> most_frequent_scores v = Inr (VList [])"
  by (simp add: most_frequent_scores_def)

text \<open>
  C3, as the code has it. \<^verbatim>\<open>get_most_frequent\<close> keeps each backend-ranked list in its
  order (most frequent first) and pairs the items with the scores \<open>n, n - 1, \<dots>, 1\<close> as
  floats, \<open>n\<close> the length of the list: the least frequent item gets 1.0 and the scores
  ascend by 1.0 towards the most frequent item, which comes first. A value that is not
  truthy (the 0 of \<^verbatim>\<open>zerofill\<close>, \<^verbatim>\<open>None\<close>) becomes the empty list. For the backend list
  \<^verbatim>\<open>["c", "b", "a"]\<close> the result is \<^verbatim>\<open>[("c", 3.0), ("b", 2.0), ("a", 1.0)]\<close>.
\<close>

theorem get_most_frequent_ranks:
  assumes "snd (get_data ext model keys start0 end0 rollup (environment_ids_of environment_id)
                  (topK limit) True False None False None) = Inr (VDict kvs)"
      and "list_all (\<lambda>(k, v). case v of VList xs \<Rightarrow> True | _ \<Rightarrow> \<not> truthy v) kvs"
    shows "snd (get_most_frequent ext model keys start0 end0 rollup limit environment_id)
           = Inr (VDict (map (\<lambda>(k, v). (k,
                 case v of
                   VList xs \<Rightarrow> VList (map2 (\<lambda>x s. VTuple [x, VFloat (of_nat s)]) xs
                                        (rev [1..<Suc (length xs)]))
                 | _ \<Rightarrow> VList [])) kvs))"
proof -
  let ?g = "\<lambda>(k, v). (k, case v of
                   VList xs \<Rightarrow> VList (map2 (\<lambda>x s. VTuple [x, VFloat (of_nat s)]) xs
                                        (rev [1..<Suc (length xs)]))
                 | _ \<Rightarrow> VList [])"
  have "mapM (\<lambda>(k, top'). bind (most_frequent_scores top') (\<lambda>l. Inr (k, l))) kvs
        = Inr (map ?g kvs)"
  proof (rule mapM_Inr)
    fix x assume "x \<in> set kvs"
    with assms(2) have "case x of (k, v) \<Rightarrow> (case v of VList xs \<Rightarrow> True | _ \<Rightarrow> \<not> truthy v)"
      by (simp add: list_all_iff)
    then show "(case x of (k, top') \<Rightarrow> bind (most_frequent_scores top') (\<lambda>l. Inr (k, l)))
               = Inr (?g x)"
      by (cases x; cases "snd x")
         (simp_all add: most_frequent_scores_list most_frequent_scores_falsy)
  qed
  then show ?thesis
    using assms(1) by (simp add: get_most_frequent_def split_beta)
qed


theorem get_most_frequent_ranks_witness:
  "snd (get_most_frequent
          (test_externals (VDict [(KInt 1, VList [VStr ''c'', VStr ''b'', VStr ''a''])]))
          frequent_issues_by_project (KSeq [KInt 1, KInt 2]) 0 None None 3 None)
   = Inr (VDict [(KInt 1, VList [VTuple [VStr ''c'', VFloat 3], VTuple [VStr ''b'', VFloat 2],
                                 VTuple [VStr ''a'', VFloat 1]]),
                 (KInt 2, VList [])])"
proof -
  let ?kvs = "[(KInt 1, VList [VStr ''c'', VStr ''b'', VStr ''a'']), (KInt 2, VInt 0)]"
  have h1: "snd (get_data
                   (test_externals (VDict [(KInt 1, VList [VStr ''c'', VStr ''b'', VStr ''a''])]))
                   frequent_issues_by_project (KSeq [KInt 1, KInt 2]) 0 None None
                   (environment_ids_of None) (topK 3) True False None False None)
            = Inr (VDict ?kvs)"
    by code_simp
  have h2: "list_all (\<lambda>(k, v). case v of VList xs \<Rightarrow> True | _ \<Rightarrow> \<not> truthy v) ?kvs"
    by simp
  have "rev [1..<Suc (length [VStr ''c'', VStr ''b'', VStr ''a''])] = [3, 2, 1]"
    by (simp add: upt_rec)
  with get_most_frequent_ranks [OF h1 h2] show ?thesis
    by simp
qed

text \<open>
  C3, as the claim has it: the list \<^verbatim>\<open>[("a", 1.0), ("b", 2.0), ("c", 3.0)]\<close> is not
  what the facade returns for the backend list \<^verbatim>\<open>["c", "b", "a"]\<close> and \<^verbatim>\<open>limit=3\<close>.
\<close>

theorem get_most_frequent_order_counterexample:
  "snd (get_most_frequent
          (test_externals (VDict [(KInt 1, VList [VStr ''c'', VStr ''b'', VStr ''a''])]))
          frequent_issues_by_project (KSeq [KInt 1]) 0 None None 3 None)
   = Inr (VDict [(KInt 1, VList [VTuple [VStr ''c'', VFloat 3], VTuple [VStr ''b'', VFloat 2],
                                 VTuple [VStr ''a'', VFloat 1]])])
   \<and> snd (get_most_frequent
          (test_externals (VDict [(KInt 1, VList [VStr ''c'', VStr ''b'', VStr ''a''])]))
          frequent_issues_by_project (KSeq [KInt 1]) 0 None None 3 None)
   \<noteq> Inr (VDict [(KInt 1, VList [VTuple [VStr ''a'', VFloat 1], VTuple [VStr ''b'', VFloat 2],
                                 VTuple [VStr ''c'', VFloat 3]])])"
  by code_simp

section \<open>Properties: the request that get_data builds\<close>

lemma bind_InrE:
  assumes "bind m f = Inr y"
  obtains x where "m = Inr x" and "f x = Inr y"
  using assms by (cases m) simp_all

lemma get_data_plan_InrD:
  assumes "get_data_plan ext model keys0 start0 end0 rollup0 environment_ids aggregation
             group_on_model group_on_time conditions0 use_cache jitter_value = Inr pl"
  shows "\<exists>keys mqs flat rollup series0 series n limit.
           get_data_keys ext model keys0 = Inr keys
         \<and> model_query_settings ext model = Some mqs
         \<and> flatten_keys keys = Inr flat
         \<and> get_optimal_rollup_series ext start0 end0 rollup0 = Inr (rollup, series0)
         \<and> add_jitter_to_series ext series0 start0 rollup jitter_value = Inr series
         \<and> series \<noteq> []
         \<and> keys_len keys = Inr n
         \<and> get_data_limit n (hd series) (last series + rollup) rollup = Inr limit
         \<and> pl_keys pl = keys \<and> pl_settings pl = mqs
         \<and> pl_groupby pl = get_data_groupby mqs model aggregation group_on_model group_on_time
         \<and> pl_keys_map pl = get_data_keys_map mqs flat environment_ids
         \<and> pl_series pl = series
         \<and> q_groupby (pl_request pl) = pl_groupby pl
         \<and> q_aggregations (pl_request pl)
             = get_data_aggregations mqs model aggregation group_on_time rollup
         \<and> q_filter_keys (pl_request pl) = pl_keys_map pl
         \<and> q_start (pl_request pl) = hd series
         \<and> q_end (pl_request pl) = last series + rollup
         \<and> q_rollup (pl_request pl) = rollup
         \<and> q_limit (pl_request pl) = limit"
proof -
  from assms obtain keys where k: "get_data_keys ext model keys0 = Inr keys"
    and r1: "(case model_query_settings ext model of
       None \<Rightarrow> Inl UnsupportedTSDBModel
     | Some mqs \<Rightarrow>
     let model_dataset = (if rollup0 = Some 10 \<and> dataset mqs = Outcomes then OutcomesRaw
                          else dataset mqs);
         groupby' = get_data_groupby mqs model aggregation group_on_model group_on_time
     in
     bind (flatten_keys keys) (\<lambda>flat.
     let keys_map = get_data_keys_map mqs flat environment_ids in
     bind (get_optimal_rollup_series ext start0 end0 rollup0) (\<lambda>(rollup, series0).
     let aggregations = get_data_aggregations mqs model aggregation group_on_time rollup in
     bind (add_jitter_to_series ext series0 start0 rollup jitter_value) (\<lambda>series.
     if series = [] then Inl IndexError else
     let start' = hd series; end' = last series + rollup in
     bind (keys_len keys) (\<lambda>n.
     bind (get_data_limit n start' end' rollup) (\<lambda>limit.
     let conditions' = (case conditions0 of Some cs \<Rightarrow> cs | None \<Rightarrow> []) @ conditions mqs;
         orderby = get_data_orderby mqs model group_on_model group_on_time
     in Inr \<lparr>pl_keys = keys, pl_settings = mqs, pl_groupby = groupby', pl_keys_map = keys_map,
             pl_series = series,
             pl_request = \<lparr>q_dataset = model_dataset, q_start = start', q_end = end',
               q_groupby = groupby', q_conditions = conditions', q_filter_keys = keys_map,
               q_aggregations = aggregations, q_rollup = rollup, q_limit = limit,
               q_orderby = orderby, q_referrer = ''tsdb-modelid:'' @ model_value ext model,
               q_is_grouprelease = (model = frequent_releases_by_group),
               q_use_cache = use_cache,
               q_selected_columns =
                 (case selected_columns mqs of
                    Some cols \<Rightarrow> if cols \<noteq> [] then Some cols else None
                  | None \<Rightarrow> None)\<rparr>\<rparr>)))))) = Inr pl"
    unfolding get_data_plan_def by (erule bind_InrE)
  from r1 obtain mqs where m: "model_query_settings ext model = Some mqs"
    by (cases "model_query_settings ext model") simp_all
  from r1 m obtain flat where f: "flatten_keys keys = Inr flat"
    by (cases "flatten_keys keys") (simp_all add: Let_def)
  from r1 m f obtain rollup series0 where
    p: "get_optimal_rollup_series ext start0 end0 rollup0 = Inr (rollup, series0)"
    by (cases "get_optimal_rollup_series ext start0 end0 rollup0") (auto simp: Let_def)
  from r1 m f p obtain series where
    j: "add_jitter_to_series ext series0 start0 rollup jitter_value = Inr series"
    by (cases "add_jitter_to_series ext series0 start0 rollup jitter_value") (auto simp: Let_def)
  from r1 m f p j have ne: "series \<noteq> []"
    by (auto simp: Let_def split: if_splits)
  from r1 m f p j ne obtain n where l: "keys_len keys = Inr n"
    by (cases "keys_len keys") (auto simp: Let_def)
  from r1 m f p j ne l obtain limit where
    lim: "get_data_limit n (hd series) (last series + rollup) rollup = Inr limit"
    by (cases "get_data_limit n (hd series) (last series + rollup) rollup") (auto simp: Let_def)
  from r1 m f p j ne l lim have "pl_keys pl = keys \<and> pl_settings pl = mqs
         \<and> pl_groupby pl = get_data_groupby mqs model aggregation group_on_model group_on_time
         \<and> pl_keys_map pl = get_data_keys_map mqs flat environment_ids
         \<and> pl_series pl = series
         \<and> q_groupby (pl_request pl) = pl_groupby pl
         \<and> q_aggregations (pl_request pl)
             = get_data_aggregations mqs model aggregation group_on_time rollup
         \<and> q_filter_keys (pl_request pl) = pl_keys_map pl
         \<and> q_start (pl_request pl) = hd series
         \<and> q_end (pl_request pl) = last series + rollup
         \<and> q_rollup (pl_request pl) = rollup
         \<and> q_limit (pl_request pl) = limit"
    by (auto simp: Let_def)
  with k m f p j ne l lim show ?thesis
    by blast
qed

lemma get_data_sent:
  "fst (get_data ext model keys0 start0 end0 rollup0 environment_ids aggregation
          group_on_model group_on_time conditions0 use_cache jitter_value)
   = (case get_data_plan ext model keys0 start0 end0 rollup0 environment_ids aggregation
             group_on_model group_on_time conditions0 use_cache jitter_value of
        Inl e \<Rightarrow> []
      | Inr pl \<Rightarrow> if keys_nonempty (pl_keys pl) then [pl_request pl] else [])"
  by (simp add: get_data_def Let_def split: sum.splits)

text \<open>
  C2. Whenever \<^verbatim>\<open>get_data\<close> sends a request, the model is registered and the request
  is built as follows, \<open>base\<close> being the model's group column (when grouping on the
  model) followed by the time column (when grouping on time). If the model has an
  aggregate column and the aggregation is \<^verbatim>\<open>count()\<close>, the group-by list is \<open>base\<close> with the
  aggregate column appended and the aggregation has the target \<^verbatim>\<open>None\<close>. For any other
  aggregation, or a model without an aggregate column, the group-by list is \<open>base\<close>
  and the aggregation targets the configured column. (The models that group on time by
  hand add their time expression to the aggregation list.)
\<close>

theorem count_rewrite:
  assumes "fst (get_data ext model keys0 start0 end0 rollup0 environment_ids aggregation
                  group_on_model group_on_time conditions0 use_cache jitter_value) = [q]"
  shows "\<exists>mqs. model_query_settings ext model = Some mqs \<and>
           (let base = (case (if group_on_model then groupby mqs else None) of
                          Some g \<Rightarrow> [g] | None \<Rightarrow> [])
                       @ (if group_on_time then
                            [if model_requires_manual_group_on_time model then ''time_t''
                             else ''time'']
                          else []);
                extra = (if group_on_time \<and> model_requires_manual_group_on_time model then
                           [manual_group_on_time_aggregation (q_rollup q) ''time_t'']
                         else [])
            in case aggregate mqs of
                 Some a \<Rightarrow>
                   if aggregation = ''count()'' then
                     q_groupby q = base @ [a]
                     \<and> q_aggregations q = VList [VStr ''count()'', VNone, VStr ''aggregate''] # extra
                   else
                     q_groupby q = base
                     \<and> q_aggregations q = VList [VStr aggregation, VStr a, VStr ''aggregate''] # extra
               | None \<Rightarrow>
                   q_groupby q = base
                   \<and> q_aggregations q = VList [VStr aggregation, VNone, VStr ''aggregate''] # extra)"
proof -
  from assms obtain pl where
    pl: "get_data_plan ext model keys0 start0 end0 rollup0 environment_ids aggregation
           group_on_model group_on_time conditions0 use_cache jitter_value = Inr pl"
    and q: "q = pl_request pl"
    by (auto simp: get_data_sent split: sum.splits if_splits)
  from get_data_plan_InrD [OF pl] obtain mqs rollup where
    m: "model_query_settings ext model = Some mqs"
    and g: "q_groupby q = get_data_groupby mqs model aggregation group_on_model group_on_time"
    and a: "q_aggregations q = get_data_aggregations mqs model aggregation group_on_time rollup"
    and r: "q_rollup q = rollup"
    unfolding q by auto
  show ?thesis
    using m g a r
    by (auto simp: get_data_groupby_def get_data_aggregations_def get_data_model_aggregate_def
          group_on_time_column_alias_def aggregated_as_def Let_def split: option.splits)
qed

theorem count_rewrite_witness:
  "\<exists>mqs. model_query_settings (test_externals VNone) users_affected_by_group = Some mqs
     \<and> aggregate mqs = Some ''tags[sentry:user]''
     \<and> (\<exists>q. fst (get_data (test_externals VNone) users_affected_by_group (KSeq [KInt 1]) 0 None
                     None None ''count()'' True True None False None) = [q]
             \<and> q_groupby q = [''group_id'', ''time'', ''tags[sentry:user]'']
             \<and> q_aggregations q = [VList [VStr ''count()'', VNone, VStr ''aggregate'']])"
proof -
  let ?q = "\<lparr>q_dataset = Events, q_start = 0, q_end = 7200,
      q_groupby = [''group_id'', ''time'', ''tags[sentry:user]''],
      q_conditions = [VList [VStr ''type'', VStr ''!='', VStr ''transaction'']],
      q_filter_keys = [(''group_id'', [KInt 1])],
      q_aggregations = [VList [VStr ''count()'', VNone, VStr ''aggregate'']],
      q_rollup = 3600, q_limit = 2, q_orderby = [''-time'', ''group_id''],
      q_referrer = ''tsdb-modelid:0'', q_is_grouprelease = False,
      q_use_cache = False, q_selected_columns = None\<rparr>"
  have h: "fst (get_data (test_externals VNone) users_affected_by_group (KSeq [KInt 1]) 0 None
                  None None ''count()'' True True None False None) = [?q]"
    by code_simp
  from count_rewrite [OF h] show ?thesis
    using h by (simp add: model_query_settings_def settings_def
                  model_requires_manual_group_on_time_def)
qed

section \<open>Properties: the keys of the key models\<close>









section \<open>Properties: the row limit\<close>

lemma flatten_keys_len:
  "flatten_keys keys = Inr (primary, secondary) \<Longrightarrow>
   keys_len keys = Inr (length primary) \<and> keys_nonempty keys = (primary \<noteq> [])"
  by (cases keys) auto

lemma get_data_limit_regular:
  assumes "0 < rollup" and "0 < n"
  shows "get_data_limit k t0 (t0 + int (n - 1) * rollup + rollup) rollup
         = Inr (min 10000 (int k * int n))"
proof -
  have span: "t0 + int (n - 1) * rollup + rollup - t0 = int n * rollup"
    using assms(2) by (simp add: algebra_simps of_nat_diff)
  have q1: "(of_int (int n * rollup) :: rat) / of_int rollup = of_int (int n)"
    using assms(1) by simp
  have q2: "(of_nat k :: rat) * of_int (int n) = of_int (int k * int n)"
    by simp
  have "py_trunc (of_nat k * ((of_int (int n * rollup) :: rat) / of_int rollup))
             = int k * int n"
    unfolding py_trunc_def q1 q2 by (simp only: floor_of_int ceiling_of_int if_cancel)
  then show ?thesis
    using assms(1) unfolding get_data_limit_def span by simp
qed

lemma regular_series_ends:
  assumes "series = map (\<lambda>i. t0 + int i * rollup) [0..<n]" and "0 < n"
  shows "series \<noteq> [] \<and> hd series = t0 \<and> last series = t0 + int (n - 1) * rollup
         \<and> length series = n"
proof -
  from assms(2) have ne: "[0..<n] \<noteq> []" by simp
  have h: "hd [0..<n] = 0" using assms(2) by (simp add: hd_upt)
  have l: "last [0..<n] = n - 1" using assms(2) by (simp add: last_upt)
  show ?thesis
    unfolding assms(1) using ne h l by (simp add: hd_map last_map del: upt.simps)
qed

text \<open>
  C8. For a registered model and a non-empty key set, when the planner and the jitter
  return a series of \<open>n > 0\<close> buckets \<open>rollup > 0\<close> apart, \<^verbatim>\<open>get_data\<close> sends one request
  whose limit is \<open>min(10000, primaryKeyCount * bucketCount)\<close>, the count of primary keys
  being the length of the first component of \<^verbatim>\<open>flatten_keys\<close> and the bucket count the
  length of the series; the request starts at \<open>series[0]\<close> and ends at
  \<open>series[-1] + rollup\<close>.
\<close>

theorem row_limit:
  assumes "model_query_settings ext model = Some mqs"
      and "get_data_keys ext model keys0 = Inr keys"
      and "flatten_keys keys = Inr (primary, secondary)"
      and "primary \<noteq> []"
      and "get_optimal_rollup_series ext start0 end0 rollup0 = Inr (rollup, series0)"
      and "add_jitter_to_series ext series0 start0 rollup jitter_value = Inr series"
      and "series = map (\<lambda>i. t0 + int i * rollup) [0..<n]"
      and "0 < n" and "0 < rollup"
  shows "\<exists>q. fst (get_data ext model keys0 start0 end0 rollup0 environment_ids aggregation
                     group_on_model group_on_time conditions0 use_cache jitter_value) = [q]
             \<and> q_limit q = min 10000 (int (length primary) * int (length series))
             \<and> q_start q = hd series \<and> q_end q = last series + rollup \<and> q_rollup q = rollup"
proof -
  from regular_series_ends [OF assms(7,8)]
  have ne: "series \<noteq> []" and h: "hd series = t0"
    and l: "last series = t0 + int (n - 1) * rollup" and n: "length series = n"
    by simp_all
  from flatten_keys_len [OF assms(3)]
  have len: "keys_len keys = Inr (length primary)" and nonempty: "keys_nonempty keys"
    using assms(4) by simp_all
  have lim: "get_data_limit (length primary) (hd series) (last series + rollup) rollup
             = Inr (min 10000 (int (length primary) * int (length series)))"
    unfolding h l n by (rule get_data_limit_regular [OF assms(9,8)])
  obtain pl where
    pl: "get_data_plan ext model keys0 start0 end0 rollup0 environment_ids aggregation
           group_on_model group_on_time conditions0 use_cache jitter_value = Inr pl"
    unfolding get_data_plan_def
    by (simp add: assms(1,2,3,5,6) ne len lim Let_def)
  from get_data_plan_InrD [OF pl] assms(1,2,3,5,6) len lim
  have "pl_keys pl = keys" and "q_limit (pl_request pl)
          = min 10000 (int (length primary) * int (length series))"
    and "q_start (pl_request pl) = hd series" and "q_end (pl_request pl) = last series + rollup"
    and "q_rollup (pl_request pl) = rollup"
    by auto
  with pl nonempty show ?thesis
    by (simp add: get_data_sent)
qed

theorem row_limit_witness:
  "\<exists>q. fst (get_data (test_externals VNone) project (KSeq [KInt 1, KInt 2, KInt 3]) 0 None None
               None ''count()'' True True None False None) = [q]
       \<and> q_limit q = 6 \<and> q_start q = 0 \<and> q_end q = 7200 \<and> q_rollup q = 3600"
proof -
  let ?ext = "test_externals VNone"
  have a1: "model_query_settings ?ext project
            = Some (settings Events ''project_id'' None [events_type_condition] None)"
    by (simp add: model_query_settings_def)
  have a2: "get_data_keys ?ext project (KSeq [KInt 1, KInt 2, KInt 3])
            = Inr (KSeq [KInt 1, KInt 2, KInt 3])"
    by (simp add: get_data_keys_def)
  have a3: "flatten_keys (KSeq [KInt 1, KInt 2, KInt 3]) = Inr ([KInt 1, KInt 2, KInt 3], None)"
    by simp
  have a4: "[KInt 1, KInt 2, KInt 3] \<noteq> []"
    by simp
  have a5: "get_optimal_rollup_series ?ext 0 None None = Inr (3600, [0, 3600])"
    by (simp add: test_externals_def)
  have a6: "add_jitter_to_series ?ext [0, 3600] 0 3600 None = Inr [0, 3600]"
    by (simp add: test_externals_def)
  have a7: "[0, 3600] = map (\<lambda>i. 0 + int i * 3600) [0..<2]"
    by (simp add: upt_rec)
  have a8: "0 < (2::nat)" and a9: "0 < (3600::int)"
    by simp_all
  from row_limit [OF a1 a2 a3 a4 a5 a6 a7 a8 a9, of None "''count()''" True True None False]
  show ?thesis
    by simp
qed

section \<open>Properties: frequency queries on flat keys\<close>

lemma registered_settings:
  assumes "model_query_settings ext model = Some mqs"
  shows "\<exists>g. groupby mqs = Some g \<and> g \<noteq> ''environment'' \<and> g \<noteq> ''time'' \<and> g \<noteq> ''time_t''
             \<and> aggregate mqs \<noteq> Some g \<and> aggregate mqs \<noteq> Some ''time''
             \<and> aggregate mqs \<noteq> Some ''time_t''"
  using assms
  by (cases model)
     (auto simp: model_query_settings_def project_filter_model_query_settings_def settings_def
           split: option.splits list.splits)

lemma map_of_dict_set:
  "map_of (dict_set kvs k v) k' = (if k' = k then Some v else map_of kvs k')"
  by (induction kvs) auto

lemma keys_dict_set: "set (map fst (dict_set kvs k v)) = insert k (set (map fst kvs))"
proof (induction kvs)
  case Nil
  show ?case by simp
next
  case (Cons x kvs)
  then show ?case
    by (cases x) (auto split: if_splits)
qed

lemma dict_set_absent: "k \<notin> set (map fst kvs) \<Longrightarrow> dict_set kvs k v = kvs @ [(k, v)]"
  by (induction kvs) auto

lemma zerofill_keys_dict:
  "\<exists>new. zerofill_keys (VDict kvs) ks fill = Inr (VDict (kvs @ new))
         \<and> set (map fst new) = set ks - set (map fst kvs)
         \<and> distinct (map fst new)
         \<and> (\<forall>(k, v) \<in> set new. v = fill)"
proof (induction ks arbitrary: kvs)
  case Nil
  show ?case by (intro exI [of _ "[]"]) simp
next
  case (Cons k ks)
  show ?case
  proof (cases "k \<in> set (map fst kvs)")
    case True
    from Cons [of kvs] obtain new where
      "zerofill_keys (VDict kvs) ks fill = Inr (VDict (kvs @ new))"
      "set (map fst new) = set ks - set (map fst kvs)" "distinct (map fst new)"
      "\<forall>(k, v) \<in> set new. v = fill"
      by blast
    with True show ?thesis
      by (intro exI [of _ new]) auto
  next
    case False
    from Cons [of "kvs @ [(k, fill)]"] obtain new where
      n: "zerofill_keys (VDict (kvs @ [(k, fill)])) ks fill = Inr (VDict ((kvs @ [(k, fill)]) @ new))"
      "set (map fst new) = set ks - set (map fst (kvs @ [(k, fill)]))" "distinct (map fst new)"
      "\<forall>(k, v) \<in> set new. v = fill"
      by blast
    with False show ?thesis
      by (intro exI [of _ "(k, fill) # new"]) (auto simp: dict_set_absent)
  qed
qed

lemma zerofill_keys_nondict:
  "zerofill_keys r ks fill = Inr (VDict kvs') \<Longrightarrow> \<exists>kvs. r = VDict kvs"
proof (induction ks arbitrary: r)
  case Nil
  then show ?case by simp
next
  case (Cons k ks)
  from Cons.prems obtain present where p: "py_contains r k = Inr present"
    by (auto elim: bind_InrE)
  show ?case
  proof (cases present)
    case True
    with Cons.prems p show ?thesis
      by (auto intro: Cons.IH)
  next
    case False
    with Cons.prems p obtain r' where s: "py_setitem r k fill = Inr r'"
      and z: "zerofill_keys r' ks fill = Inr (VDict kvs')"
      by (auto elim: bind_InrE)
    from Cons.IH [OF z] obtain kvs where "r' = VDict kvs" ..
    with s show ?thesis
      by (cases r; cases k) (auto simp: Let_def split: if_splits)
  qed
qed


lemma mapM_Inl:
  assumes "xs \<noteq> []" and "\<And>x. x \<in> set xs \<Longrightarrow> \<exists>e. f x = Inl e"
  shows "\<exists>e. mapM f xs = Inl e"
proof (cases xs)
  case Nil
  with assms(1) show ?thesis by simp
next
  case (Cons x xs')
  with assms(2) [of x] obtain e where "f x = Inl e" by auto
  with Cons show ?thesis by simp
qed

lemma zerofill_unbound:
  assumes "map_of fk a = None" and "a \<in> set gs"
      and "\<forall>g \<in> set (takeWhile (\<lambda>g. g \<noteq> a) gs). \<exists>ks. map_of fk g = Some ks \<and> ks \<noteq> []"
  shows "\<exists>e. zerofill r gs fk = Inl e"
  using assms(2,3)
proof (induction gs arbitrary: r)
  case Nil
  then show ?case by simp
next
  case (Cons g gs)
  show ?case
  proof (cases "g = a")
    case True
    with assms(1) show ?thesis by simp
  next
    case False
    with Cons.prems obtain ks where ks: "map_of fk g = Some ks" "ks \<noteq> []"
      and a: "a \<in> set gs"
      and rest: "\<forall>g \<in> set (takeWhile (\<lambda>g. g \<noteq> a) gs). \<exists>ks. map_of fk g = Some ks \<and> ks \<noteq> []"
      by auto
    from a have gs: "gs \<noteq> []" by auto
    show ?thesis
    proof (cases "zerofill_keys r ks (VDict [])")
      case (Inl e)
      with ks gs show ?thesis by simp
    next
      case (Inr r')
      show ?thesis
      proof (cases "\<exists>kvs'. r' = VDict kvs'")
        case False
        with Inr ks gs show ?thesis
          by (cases r') simp_all
      next
        case True
        then obtain kvs' where r': "r' = VDict kvs'" ..
        with Inr zerofill_keys_nondict obtain kvs where r: "r = VDict kvs"
          by blast
        from zerofill_keys_dict [of kvs ks "VDict []"] Inr r r' obtain new where
          "kvs' = kvs @ new" "set (map fst new) = set ks - set (map fst kvs)"
          by auto
        with ks(2) have ne: "kvs' \<noteq> []"
          by (cases kvs) auto
        have "\<exists>e. mapM (\<lambda>(k, v). bind (zerofill v gs fk) (\<lambda>v'. Inr (k, v'))) kvs' = Inl e"
        proof (rule mapM_Inl [OF ne])
          fix x assume "x \<in> set kvs'"
          from Cons.IH [OF a rest, of "snd x"] obtain e where "zerofill (snd x) gs fk = Inl e" ..
          then show "\<exists>e. (case x of (k, v) \<Rightarrow> bind (zerofill v gs fk) (\<lambda>v'. Inr (k, v'))) = Inl e"
            by (cases x) simp
        qed
        with Inr r' ks gs show ?thesis
          by auto
      qed
    qed
  qed
qed


lemma get_data_result:
  "snd (get_data ext model keys0 start0 end0 rollup0 environment_ids aggregation
          group_on_model group_on_time conditions0 use_cache jitter_value)
   = (case get_data_plan ext model keys0 start0 end0 rollup0 environment_ids aggregation
             group_on_model group_on_time conditions0 use_cache jitter_value of
        Inl e \<Rightarrow> Inl e
      | Inr pl \<Rightarrow>
          bind (if keys_nonempty (pl_keys pl) then
                  bind (snuba_query ext (pl_request pl)) (\<lambda>result.
                    if q_selected_columns (pl_request pl) \<noteq> None
                    then Inr (unnest result (KStr aggregated_as)) else Inr result)
                else Inr (VDict []))
            (\<lambda>result.
              bind (zerofill result (pl_groupby pl)
                      (if group_on_time then
                         dict_set (pl_keys_map pl)
                           (if \<not> model_requires_manual_group_on_time model then ''time''
                            else group_on_time_column_alias)
                           (map KInt (pl_series pl))
                       else pl_keys_map pl))
                (\<lambda>result.
                  bind (trim result (pl_groupby pl) (pl_keys pl)) (\<lambda>result.
                    if group_on_time \<and> model_requires_manual_group_on_time model
                    then Inr (unnest result (KStr aggregated_as)) else Inr result))))"
  by (simp add: get_data_def Let_def split: sum.splits)

lemma bind_all_Inl:
  assumes "\<And>x. \<exists>e. f x = Inl e"
  shows "\<exists>e. bind m f = Inl e"
  using assms by (cases m) simp_all

lemma mapM_length: "mapM f xs = Inr ys \<Longrightarrow> length ys = length xs"
  by (induction xs arbitrary: ys) (auto elim!: bind_InrE)

lemma get_data_keys_flat:
  assumes "get_data_keys ext model items = Inr keys"
      and "items = KSeq xs \<or> items = KSet xs" and "xs \<noteq> []"
  shows "\<exists>ys. ys \<noteq> [] \<and> flatten_keys keys = Inr (ys, None)"
proof (cases "model \<in> set [key_total_received, key_total_blacklisted, key_total_rejected]")
  case True
  with assms(1,2) obtain ints where i: "mapM (python_int ext) xs = Inr ints"
    and k: "keys = KSeq (remdups (map KInt ints))"
    unfolding get_data_keys_def by (auto elim!: bind_InrE)
  from mapM_length [OF i] assms(3) have "ints \<noteq> []" by auto
  with k show ?thesis by simp
next
  case False
  with assms show ?thesis
    by (auto simp: get_data_keys_def)
qed

lemma get_data_count_flat_raises:
  assumes "model_query_settings ext model = Some mqs" and "aggregate mqs = Some a"
      and "items = KSeq xs \<or> items = KSet xs" and "xs \<noteq> []"
      and "environment_ids \<noteq> None \<longrightarrow> a \<noteq> ''environment''"
  shows "\<exists>e. snd (get_data ext model items start0 end0 rollup0 environment_ids ''count()''
                     True group_on_time conditions0 use_cache jitter_value) = Inl e"
proof (cases "get_data_plan ext model items start0 end0 rollup0 environment_ids ''count()''
                True group_on_time conditions0 use_cache jitter_value")
  case (Inl e)
  then show ?thesis by (simp add: get_data_result)
next
  case (Inr pl)
  from get_data_plan_InrD [OF Inr] assms(1) obtain keys flat series where
    k: "get_data_keys ext model items = Inr keys" and f: "flatten_keys keys = Inr flat"
    and ne: "series \<noteq> []"
    and gb: "pl_groupby pl = get_data_groupby mqs model ''count()'' True group_on_time"
    and km: "pl_keys_map pl = get_data_keys_map mqs flat environment_ids"
    and se: "pl_series pl = series"
    by auto
  from get_data_keys_flat [OF k assms(3,4)] f obtain ys where
    ys: "ys \<noteq> []" and flat: "flat = (ys, None)"
    by auto
  from registered_settings [OF assms(1)] assms(2) obtain g where
    g: "groupby mqs = Some g" "g \<noteq> ''environment''" "g \<noteq> ''time''" "g \<noteq> ''time_t''"
       "a \<noteq> g" "a \<noteq> ''time''" "a \<noteq> ''time_t''"
    by auto
  let ?t = "if \<not> model_requires_manual_group_on_time model then ''time''
            else group_on_time_column_alias"
  let ?km = "if group_on_time then dict_set (pl_keys_map pl) ?t (map KInt (pl_series pl))
             else pl_keys_map pl"
  have t: "?t \<noteq> a" "?t \<noteq> g"
    using g by (auto simp: group_on_time_column_alias_def)
  have gs: "pl_groupby pl = g # (if group_on_time then [?t] else []) @ [a]"
    unfolding gb using g(1) assms(2) by (simp add: get_data_groupby_def)
  have base: "map_of (pl_keys_map pl) a = None \<and> map_of (pl_keys_map pl) g = Some ys"
    unfolding km flat using g assms(2,5)
    by (cases environment_ids) (auto simp: get_data_keys_map_def map_of_dict_set)
  have unbound: "map_of ?km a = None"
    using base t by (simp add: map_of_dict_set)
  have bound_g: "map_of ?km g = Some ys"
    using base t by (simp add: map_of_dict_set)
  have bound_t: "group_on_time \<Longrightarrow> map_of ?km ?t = Some (map KInt series)"
    using se by (simp add: map_of_dict_set)
  have tw: "\<forall>g' \<in> set (takeWhile (\<lambda>g'. g' \<noteq> a) (pl_groupby pl)).
              \<exists>ks. map_of ?km g' = Some ks \<and> ks \<noteq> []"
    unfolding gs using g(5) t bound_g bound_t ys ne
    by (cases group_on_time) auto
  have "a \<in> set (pl_groupby pl)"
    unfolding gs by simp
  from zerofill_unbound [OF unbound this tw]
  have z: "\<And>r. \<exists>e. zerofill r (pl_groupby pl) ?km = Inl e" .
  let ?F = "\<lambda>result. bind (zerofill result (pl_groupby pl) ?km)
                (\<lambda>result.
                  bind (trim result (pl_groupby pl) (pl_keys pl)) (\<lambda>result.
                    if group_on_time \<and> model_requires_manual_group_on_time model
                    then Inr (unnest result (KStr aggregated_as)) else Inr result))"
  let ?Q = "if keys_nonempty (pl_keys pl) then
                  bind (snuba_query ext (pl_request pl)) (\<lambda>result.
                    if q_selected_columns (pl_request pl) \<noteq> None
                    then Inr (unnest result (KStr aggregated_as)) else Inr result)
                else Inr (VDict [])"
  have "\<And>r. \<exists>e. ?F r = Inl e"
  proof -
    fix r
    from z [of r] obtain e where "zerofill r (pl_groupby pl) ?km = Inl e" ..
    then show "\<exists>e. ?F r = Inl e" by (simp only: bind_Inl) blast
  qed
  from bind_all_Inl [of ?F ?Q, OF this] obtain e where "bind ?Q ?F = Inl e" ..
  moreover have "snd (get_data ext model items start0 end0 rollup0 environment_ids ''count()''
                     True group_on_time conditions0 use_cache jitter_value) = bind ?Q ?F"
    by (simp only: get_data_result Inr sum.case)
  ultimately show ?thesis
    by (simp only:) blast
qed

text \<open>
  C10, as the code has it. For a registered model with an aggregate column \<open>a\<close>,
  \<^verbatim>\<open>get_frequency_totals\<close> and \<^verbatim>\<open>get_frequency_series\<close> on a non-empty flat key
  collection raise an error, unless an environment id is given and \<open>a\<close> is the column
  \<^verbatim>\<open>environment\<close>: the \<^verbatim>\<open>count()\<close> rewrite puts \<open>a\<close> into the group-by list, the
  filter-key map binds no keys to it, and \<^verbatim>\<open>zerofill\<close> fails on that level (if nothing
  has failed before).
\<close>

theorem frequency_flat_keys_raise:
  assumes "model_query_settings ext model = Some mqs" and "aggregate mqs = Some a"
      and "items = KSeq xs \<or> items = KSet xs" and "xs \<noteq> []"
      and "environment_id \<noteq> None \<longrightarrow> a \<noteq> ''environment''"
  shows "(\<exists>e. snd (get_frequency_totals ext model items start0 end0 rollup0 environment_id)
               = Inl e)
       \<and> (\<exists>e. snd (get_frequency_series ext model items start0 end0 rollup0 environment_id)
               = Inl e)"
proof -
  have env: "environment_ids_of environment_id \<noteq> None \<longrightarrow> a \<noteq> ''environment''"
    using assms(5) by (cases environment_id) (simp_all add: environment_ids_of_def)
  from get_data_count_flat_raises [OF assms(1-4) env]
  have "\<exists>e. snd (get_data ext model items start0 end0 rollup0 (environment_ids_of environment_id)
                     ''count()'' True False None False None) = Inl e"
    and "\<exists>e. snd (get_data ext model items start0 end0 rollup0 (environment_ids_of environment_id)
                     ''count()'' True True None False None) = Inl e"
    by blast+
  then show ?thesis
    by (auto simp: get_frequency_totals_def get_frequency_series_def split_beta)
qed

theorem frequency_flat_keys_raise_witness:
  "(\<exists>e. snd (get_frequency_totals (test_externals (VDict [(KInt 1, VDict [(KInt 8, VInt 5)])]))
              users_affected_by_group (KSeq [KInt 1]) 0 None None None) = Inl e)
   \<and> (\<exists>e. snd (get_frequency_series (test_externals (VDict [(KInt 1, VDict [(KInt 8, VInt 5)])]))
              users_affected_by_group (KSeq [KInt 1]) 0 None None None) = Inl e)"
proof -
  have a1: "model_query_settings (test_externals (VDict [(KInt 1, VDict [(KInt 8, VInt 5)])]))
              users_affected_by_group
            = Some (settings Events ''group_id'' (Some ''tags[sentry:user]'')
                      [events_type_condition] None)"
    by (simp add: model_query_settings_def)
  have a2: "aggregate (settings Events ''group_id'' (Some ''tags[sentry:user]'')
                         [events_type_condition] None) = Some ''tags[sentry:user]''"
    by (simp add: settings_def)
  have a3: "KSeq [KInt 1] = KSeq [KInt 1] \<or> KSeq [KInt 1] = KSet [KInt 1]"
    by simp
  have a4: "[KInt 1] \<noteq> []"
    by simp
  have a5: "(None :: key option) \<noteq> None \<longrightarrow> ''tags[sentry:user]'' \<noteq> ''environment''"
    by simp
  from frequency_flat_keys_raise [OF a1 a2 a3 a4 a5] show ?thesis .
qed

text \<open>
  C10, as the claim has it, fails for the model \<^verbatim>\<open>frequent_environments_by_group\<close>
  (aggregate column \<^verbatim>\<open>environment\<close>) when an environment id is given: the environment
  filter binds the aggregate column in the filter-key map, and the call returns a result.
\<close>

theorem frequency_environment_counterexample:
  "snd (get_frequency_totals (test_externals (VDict [(KInt 1, VDict [(KInt 7, VInt 5)])]))
          frequent_environments_by_group (KSeq [KInt 1]) 0 None None (Some (KInt 7)))
   = Inr (VDict [(KInt 1, VDict [(KInt 7, VInt 5)])])"
  by code_simp

section \<open>Properties: the empty key set\<close>

lemma get_data_keys_empty:
  assumes "keys0 = KSeq [] \<or> keys0 = KSet [] \<or> keys0 = KMapping []"
  shows "\<exists>keys sec. get_data_keys ext model keys0 = Inr keys \<and> \<not> keys_nonempty keys
           \<and> flatten_keys keys = Inr ([], sec) \<and> keys_len keys = Inr 0"
  using assms by (auto simp: get_data_keys_def)

lemma get_data_empty_sent:
  assumes "keys0 = KSeq [] \<or> keys0 = KSet [] \<or> keys0 = KMapping []"
  shows "fst (get_data ext model keys0 start0 end0 rollup0 environment_ids aggregation
                group_on_model group_on_time conditions0 use_cache jitter_value) = []"
proof (cases "get_data_plan ext model keys0 start0 end0 rollup0 environment_ids aggregation
                group_on_model group_on_time conditions0 use_cache jitter_value")
  case (Inl e)
  then show ?thesis by (simp add: get_data_sent)
next
  case (Inr pl)
  from get_data_plan_InrD [OF Inr] get_data_keys_empty [OF assms, of ext model]
  have "\<not> keys_nonempty (pl_keys pl)" by auto
  with Inr show ?thesis by (simp add: get_data_sent)
qed

lemma zerofill_empty:
  assumes "gs = [] \<or> map_of fk (hd gs) = Some []"
  shows "zerofill (VDict []) gs fk = Inr (VDict [])"
  using assms by (cases gs) auto

lemma trim_empty: "trim (VDict []) gs keys = Inr (VDict [])"
  by (cases gs) auto


lemma get_data_limit_zero: "rollup \<noteq> 0 \<Longrightarrow> get_data_limit 0 s e rollup = Inr 0"
  by (simp add: get_data_limit_def py_trunc_def)

lemma get_data_empty_result:
  assumes "keys0 = KSeq [] \<or> keys0 = KSet [] \<or> keys0 = KMapping []"
      and "model_query_settings ext model = Some mqs"
      and "get_optimal_rollup_series ext start0 end0 rollup0 = Inr (rollup, series0)"
      and "rollup \<noteq> 0"
      and "add_jitter_to_series ext series0 start0 rollup jitter_value = Inr series"
      and "series \<noteq> []"
      and "group_on_model \<or> (\<not> group_on_time \<and> aggregation \<noteq> ''count()'')"
  shows "snd (get_data ext model keys0 start0 end0 rollup0 environment_ids aggregation
                group_on_model group_on_time conditions0 use_cache jitter_value)
         = Inr (VDict [])"
proof -
  from get_data_keys_empty [OF assms(1), of ext model] obtain keys sec where
    k: "get_data_keys ext model keys0 = Inr keys" and e: "\<not> keys_nonempty keys"
    and f: "flatten_keys keys = Inr ([], sec)" and l: "keys_len keys = Inr 0"
    by blast
  obtain pl where
    pl: "get_data_plan ext model keys0 start0 end0 rollup0 environment_ids aggregation
           group_on_model group_on_time conditions0 use_cache jitter_value = Inr pl"
    unfolding get_data_plan_def
    by (simp add: k f l assms(2,3,5,6) get_data_limit_zero [OF assms(4)] Let_def)
  from get_data_plan_InrD [OF pl] k f assms(2)
  have pk: "pl_keys pl = keys"
    and gb: "pl_groupby pl = get_data_groupby mqs model aggregation group_on_model group_on_time"
    and km: "pl_keys_map pl = get_data_keys_map mqs ([], sec) environment_ids"
    by auto
  from registered_settings [OF assms(2)] obtain g where
    g: "groupby mqs = Some g" "g \<noteq> ''environment''" "g \<noteq> ''time''" "g \<noteq> ''time_t''"
       "aggregate mqs \<noteq> Some g"
    by auto
  let ?t = "if \<not> model_requires_manual_group_on_time model then ''time''
            else group_on_time_column_alias"
  let ?km = "if group_on_time then dict_set (pl_keys_map pl) ?t (map KInt (pl_series pl))
             else pl_keys_map pl"
  have t: "?t \<noteq> g"
    using g by (auto simp: group_on_time_column_alias_def)
  have base: "map_of (pl_keys_map pl) g = Some []"
    unfolding km using g
    by (cases environment_ids; cases "aggregate mqs"; cases sec)
       (auto simp: get_data_keys_map_def map_of_dict_set)
  have bound: "map_of ?km g = Some []"
    using base t by (simp add: map_of_dict_set)
  have "pl_groupby pl = [] \<or> hd (pl_groupby pl) = g"
    unfolding gb using g(1) assms(7) by (auto simp: get_data_groupby_def)
  with bound have "pl_groupby pl = [] \<or> map_of ?km (hd (pl_groupby pl)) = Some []"
    by auto
  from zerofill_empty [OF this] have z: "zerofill (VDict []) (pl_groupby pl) ?km = Inr (VDict [])" .
  show ?thesis
    unfolding get_data_result pl using e pk
    by (simp only: sum.case if_False z bind_Inr trim_empty) simp
qed


lemma series_of_result_empty: "series_of_result (VDict []) = Inr (VDict [])"
  by (simp add: series_of_result_def)

lemma topK_not_count: "topK limit \<noteq> ''count()''"
  by (simp add: topK_def)

text \<open>
  C5. With an empty key set (an empty sequence, set or mapping) none of the eight facade
  methods sends a request to the backend executor, whatever else happens; and for a
  registered model, when the planner and the jitter return a non-empty series and a
  rollup other than 0, each method returns the empty mapping.
\<close>

theorem empty_keys_short_circuit:
  assumes "keys0 = KSeq [] \<or> keys0 = KSet [] \<or> keys0 = KMapping []"
  shows "fst (get_range ext model keys0 start0 end0 rollup0 environment_ids conditions0
                use_cache jitter_value) = []
       \<and> fst (get_distinct_counts_series ext model keys0 start0 end0 rollup0 environment_id) = []
       \<and> fst (get_distinct_counts_totals ext model keys0 start0 end0 rollup0 environment_id
                use_cache jitter_value) = []
       \<and> fst (get_distinct_counts_union ext model keys0 start0 end0 rollup0 environment_id) = []
       \<and> fst (get_most_frequent ext model keys0 start0 end0 rollup0 limit environment_id) = []
       \<and> fst (get_most_frequent_series ext model keys0 start0 end0 rollup0 limit environment_id)
           = []
       \<and> fst (get_frequency_series ext model keys0 start0 end0 rollup0 environment_id) = []
       \<and> fst (get_frequency_totals ext model keys0 start0 end0 rollup0 environment_id) = []
       \<and> (model_query_settings ext model \<noteq> None
            \<and> get_optimal_rollup_series ext start0 end0 rollup0 = Inr (rollup, series0)
            \<and> rollup \<noteq> 0
            \<and> add_jitter_to_series ext series0 start0 rollup jitter_value = Inr series
            \<and> series \<noteq> []
            \<and> add_jitter_to_series ext series0 start0 rollup None = Inr series'
            \<and> series' \<noteq> []
          \<longrightarrow>
            snd (get_range ext model keys0 start0 end0 rollup0 environment_ids conditions0
                   use_cache jitter_value) = Inr (VDict [])
          \<and> snd (get_distinct_counts_series ext model keys0 start0 end0 rollup0 environment_id)
              = Inr (VDict [])
          \<and> snd (get_distinct_counts_totals ext model keys0 start0 end0 rollup0 environment_id
                   use_cache jitter_value) = Inr (VDict [])
          \<and> snd (get_distinct_counts_union ext model keys0 start0 end0 rollup0 environment_id)
              = Inr (VDict [])
          \<and> snd (get_most_frequent ext model keys0 start0 end0 rollup0 limit environment_id)
              = Inr (VDict [])
          \<and> snd (get_most_frequent_series ext model keys0 start0 end0 rollup0 limit
                   environment_id) = Inr (VDict [])
          \<and> snd (get_frequency_series ext model keys0 start0 end0 rollup0 environment_id)
              = Inr (VDict [])
          \<and> snd (get_frequency_totals ext model keys0 start0 end0 rollup0 environment_id)
              = Inr (VDict []))"
proof -
  note sent = get_data_empty_sent [OF assms, of ext model start0 end0 rollup0]
  have s1: "fst (get_range ext model keys0 start0 end0 rollup0 environment_ids conditions0
                   use_cache jitter_value) = []"
    using sent by (cases "model_query_settings ext model")
                   (simp_all add: get_range_def split_beta Let_def)
  have s2: "fst (get_distinct_counts_series ext model keys0 start0 end0 rollup0 environment_id)
            = []"
    using sent by (simp add: get_distinct_counts_series_def split_beta)
  have s3: "fst (get_distinct_counts_totals ext model keys0 start0 end0 rollup0 environment_id
                   use_cache jitter_value) = []"
    using sent by (simp add: get_distinct_counts_totals_def)
  have s4: "fst (get_distinct_counts_union ext model keys0 start0 end0 rollup0 environment_id)
            = []"
    using sent by (simp add: get_distinct_counts_union_def)
  have s5: "fst (get_most_frequent ext model keys0 start0 end0 rollup0 limit environment_id) = []"
    using sent by (simp add: get_most_frequent_def split_beta)
  have s6: "fst (get_most_frequent_series ext model keys0 start0 end0 rollup0 limit
                   environment_id) = []"
    using sent by (simp add: get_most_frequent_series_def split_beta)
  have s7: "fst (get_frequency_series ext model keys0 start0 end0 rollup0 environment_id) = []"
    using sent by (simp add: get_frequency_series_def split_beta)
  have s8: "fst (get_frequency_totals ext model keys0 start0 end0 rollup0 environment_id) = []"
    using sent by (simp add: get_frequency_totals_def)
  have r: "snd (get_range ext model keys0 start0 end0 rollup0 environment_ids conditions0
                   use_cache jitter_value) = Inr (VDict [])
          \<and> snd (get_distinct_counts_series ext model keys0 start0 end0 rollup0 environment_id)
              = Inr (VDict [])
          \<and> snd (get_distinct_counts_totals ext model keys0 start0 end0 rollup0 environment_id
                   use_cache jitter_value) = Inr (VDict [])
          \<and> snd (get_distinct_counts_union ext model keys0 start0 end0 rollup0 environment_id)
              = Inr (VDict [])
          \<and> snd (get_most_frequent ext model keys0 start0 end0 rollup0 limit environment_id)
              = Inr (VDict [])
          \<and> snd (get_most_frequent_series ext model keys0 start0 end0 rollup0 limit
                   environment_id) = Inr (VDict [])
          \<and> snd (get_frequency_series ext model keys0 start0 end0 rollup0 environment_id)
              = Inr (VDict [])
          \<and> snd (get_frequency_totals ext model keys0 start0 end0 rollup0 environment_id)
              = Inr (VDict [])"
    if m: "model_query_settings ext model = Some mqs"
      and p: "get_optimal_rollup_series ext start0 end0 rollup0 = Inr (rollup, series0)"
      and z: "rollup \<noteq> 0"
      and j: "add_jitter_to_series ext series0 start0 rollup jitter_value = Inr series"
             "series \<noteq> []"
      and j': "add_jitter_to_series ext series0 start0 rollup None = Inr series'"
              "series' \<noteq> []"
    for mqs
  proof -
    note a = get_data_empty_result [OF assms m p z j]
    note b = get_data_empty_result [OF assms m p z j']
    show ?thesis
      using a [of True] b [of True] b [of False False "''uniq''"] m
      by (simp add: get_range_def get_distinct_counts_series_def
            get_distinct_counts_totals_def get_distinct_counts_union_def
            get_most_frequent_def get_most_frequent_series_def get_frequency_series_def
            get_frequency_totals_def split_beta Let_def series_of_result_empty)
  qed
  from s1 s2 s3 s4 s5 s6 s7 s8 r show ?thesis
    by blast
qed


theorem empty_keys_short_circuit_witness:
  "get_range (test_externals VNone) project (KSeq []) 0 None None None None False None
     = ([], Inr (VDict []))
   \<and> get_distinct_counts_series (test_externals VNone) project (KSeq []) 0 None None None
     = ([], Inr (VDict []))
   \<and> get_distinct_counts_totals (test_externals VNone) project (KSeq []) 0 None None None
       False None = ([], Inr (VDict []))
   \<and> get_distinct_counts_union (test_externals VNone) project (KSeq []) 0 None None None
     = ([], Inr (VDict []))
   \<and> get_most_frequent (test_externals VNone) project (KSeq []) 0 None None 10 None
     = ([], Inr (VDict []))
   \<and> get_most_frequent_series (test_externals VNone) project (KSeq []) 0 None None 10 None
     = ([], Inr (VDict []))
   \<and> get_frequency_series (test_externals VNone) project (KSeq []) 0 None None None
     = ([], Inr (VDict []))
   \<and> get_frequency_totals (test_externals VNone) project (KSeq []) 0 None None None
     = ([], Inr (VDict []))"
proof -
  have a: "KSeq [] = KSeq [] \<or> KSeq [] = KSet [] \<or> KSeq [] = KMapping []"
    by simp
  have h: "model_query_settings (test_externals VNone) project \<noteq> None
       \<and> get_optimal_rollup_series (test_externals VNone) 0 None None = Inr (3600, [0, 3600])
       \<and> (3600::int) \<noteq> 0
       \<and> add_jitter_to_series (test_externals VNone) [0, 3600] 0 3600 None = Inr [0, 3600]
       \<and> [0, 3600 :: int] \<noteq> []
       \<and> add_jitter_to_series (test_externals VNone) [0, 3600] 0 3600 None = Inr [0, 3600]
       \<and> [0, 3600 :: int] \<noteq> []"
    by (simp add: model_query_settings_def test_externals_def)
  from empty_keys_short_circuit [OF a, where ext = "test_externals VNone" and model = project
      and ?start0.0 = 0 and ?end0.0 = None and ?rollup0.0 = None and environment_ids = None
      and ?conditions0.0 = None and use_cache = False and jitter_value = None
      and environment_id = None and limit = 10 and rollup = 3600 and ?series0.0 = "[0, 3600]"
      and series = "[0, 3600]" and series' = "[0, 3600]"] h
  show ?thesis
    by (simp add: prod_eq_iff)
qed

section \<open>Properties: zero-filling\<close>

lemma zerofill_keys_filled:
  "\<exists>kvs'. zerofill_keys (VDict kvs) ks fill = Inr (VDict kvs')
         \<and> (\<forall>k. map_of kvs' k = (case map_of kvs k of
                                    Some v \<Rightarrow> Some v
                                  | None \<Rightarrow> if k \<in> set ks then Some fill else None))
         \<and> (set ks \<subseteq> set (map fst kvs) \<longrightarrow> kvs' = kvs)
         \<and> (\<forall>x \<in> set kvs'. x \<in> set kvs \<or> snd x = fill)"
proof -
  from zerofill_keys_dict [of kvs ks fill] obtain new where
    z: "zerofill_keys (VDict kvs) ks fill = Inr (VDict (kvs @ new))"
    and k: "set (map fst new) = set ks - set (map fst kvs)"
    and f: "\<forall>(k, v) \<in> set new. v = fill"
    by blast
  have new: "map_of new k = (if k \<in> set ks - set (map fst kvs) then Some fill else None)" for k
  proof (cases "map_of new k")
    case None
    then have "k \<notin> set (map fst new)" by (simp add: map_of_eq_None_iff)
    with k None show ?thesis by auto
  next
    case (Some v)
    then have "(k, v) \<in> set new" by (rule map_of_SomeD)
    with f k Some show ?thesis by force
  qed
  have m: "map_of (kvs @ new) k = (case map_of kvs k of
                                    Some v \<Rightarrow> Some v
                                  | None \<Rightarrow> if k \<in> set ks then Some fill else None)" for k
  proof (cases "map_of kvs k")
    case None
    then have "k \<notin> set (map fst kvs)" by (simp add: map_of_eq_None_iff)
    with None show ?thesis by (simp add: map_add_def new)
  next
    case (Some v)
    then show ?thesis by (simp add: map_add_def new split: option.splits)
  qed
  have e: "set ks \<subseteq> set (map fst kvs) \<longrightarrow> kvs @ new = kvs"
  proof
    assume "set ks \<subseteq> set (map fst kvs)"
    then have "set ks - set (map fst kvs) = {}" by (simp only: Diff_eq_empty_iff)
    with k have "set (map fst new) = {}" by (simp only:)
    then show "kvs @ new = kvs" by simp
  qed
  have o: "\<forall>x \<in> set (kvs @ new). x \<in> set kvs \<or> snd x = fill"
  proof
    fix x assume "x \<in> set (kvs @ new)"
    then have "x \<in> set kvs \<or> x \<in> set new" by simp
    then show "x \<in> set kvs \<or> snd x = fill"
    proof
      assume "x \<in> set kvs" then show ?thesis ..
    next
      assume "x \<in> set new"
      with f have "case x of (k, v) \<Rightarrow> v = fill" by (rule bspec)
      then have "snd x = fill" by (cases x) simp
      then show ?thesis ..
    qed
  qed
  from z m e o show ?thesis
    by blast
qed

lemma mapM_rel:
  assumes "\<And>x. x \<in> set xs \<Longrightarrow> \<exists>y. f x = Inr y \<and> Q x y"
  shows "\<exists>ys. mapM f xs = Inr ys \<and> list_all2 Q xs ys"
  using assms
proof (induction xs)
  case Nil
  show ?case by simp
next
  case (Cons x xs)
  from Cons.prems [of x] obtain y where y: "f x = Inr y" "Q x y" by auto
  from Cons.IH Cons.prems obtain ys where ys: "mapM f xs = Inr ys" "list_all2 Q xs ys"
    by (metis list.set_intros(2))
  from y ys show ?case by simp
qed

lemma map_of_rel:
  assumes "list_all2 (\<lambda>x y. fst y = fst x \<and> Q (snd x) (snd y)) xs ys"
  shows "(case map_of xs k of
            None \<Rightarrow> map_of ys k = None
          | Some v \<Rightarrow> \<exists>v'. map_of ys k = Some v' \<and> Q v v')"
  using assms
proof (induction xs ys rule: list_all2_induct)
  case Nil
  show ?case by simp
next
  case (Cons x xs y ys)
  then show ?case
    by (cases x; cases y) (auto split: option.splits)
qed

lemma keys_rel:
  assumes "list_all2 (\<lambda>x y. fst y = fst x \<and> Q (snd x) (snd y)) xs ys"
  shows "map fst ys = map fst xs"
  using assms by (induction xs ys rule: list_all2_induct) auto

lemma complete_noop: "complete_tree r gs fk \<Longrightarrow> zerofill r gs fk = Inr r"
proof (induction gs arbitrary: r)
  case Nil
  show ?case by simp
next
  case (Cons g gs)
  from Cons.prems obtain kvs where r: "r = VDict kvs"
    by (cases r) simp_all
  from Cons.prems r obtain ks where ks: "map_of fk g = Some ks"
    by (cases "map_of fk g") simp_all
  from Cons.prems r ks have sub: "set ks \<subseteq> set (map fst kvs)"
    and vals: "\<And>k v. (k, v) \<in> set kvs \<Longrightarrow> complete_tree v gs fk"
    by (auto simp: list_all_iff)
  from zerofill_keys_filled [of kvs ks "if gs = [] then VInt 0 else VDict []"] sub
  have z: "zerofill_keys (VDict kvs) ks (if gs = [] then VInt 0 else VDict [])
           = Inr (VDict kvs)"
    by auto
  have "mapM (\<lambda>(k, v). bind (zerofill v gs fk) (\<lambda>v'. Inr (k, v'))) kvs = Inr (map (\<lambda>x. x) kvs)"
    by (rule mapM_Inr) (auto simp: Cons.IH [OF vals])
  with z r ks show ?case
    by simp
qed

lemma shaped_empty: "shaped (VDict []) n"
  by (cases n) simp_all

lemma zerofilled_Nil: "zerofilled r [] fk r"
  by (simp add: zerofilled_def)

lemma zerofill_Cons_dict:
  assumes "map_of fk g = Some ks"
      and "zerofill_keys (VDict kvs) ks (if gs = [] then VInt 0 else VDict []) = Inr (VDict kvs0)"
  shows "zerofill (VDict kvs) (g # gs) fk
         = bind (mapM (\<lambda>(k, v). bind (zerofill v gs fk) (\<lambda>v'. Inr (k, v'))) kvs0)
             (\<lambda>kvs'. Inr (VDict kvs'))"
proof (cases "gs = []")
  case True
  have "mapM (\<lambda>(k, v). bind (zerofill v [] fk) (\<lambda>v'. Inr (k, v'))) kvs0
        = Inr (map (\<lambda>x. x) kvs0)"
    by (rule mapM_Inr) auto
  with True assms show ?thesis by simp
next
  case False
  with assms show ?thesis by simp
qed


lemma list_all2_right:
  assumes "list_all2 Q xs ys" and "y \<in> set ys"
  shows "\<exists>x \<in> set xs. Q x y"
  using assms by (induction xs ys rule: list_all2_induct) auto

lemma zerofill_shaped:
  assumes "shaped r (length gs)" and "\<forall>g \<in> set gs. map_of fk g \<noteq> None"
  shows "\<exists>z. zerofill r gs fk = Inr z \<and> zerofilled r gs fk z"
  using assms
proof (induction gs arbitrary: r)
  case Nil
  show ?case by (simp add: zerofilled_Nil)
next
  case (Cons g gs)
  from Cons.prems(1) obtain kvs where r: "r = VDict kvs"
    by (cases r) simp_all
  from Cons.prems(2) obtain ks where ks: "map_of fk g = Some ks"
    by auto
  from Cons.prems(2) have bound: "\<forall>g \<in> set gs. map_of fk g \<noteq> None"
    by simp
  let ?fill = "if gs = [] then VInt 0 else VDict []"
  from zerofill_keys_filled [of kvs ks ?fill] obtain kvs0 where
    z0: "zerofill_keys (VDict kvs) ks ?fill = Inr (VDict kvs0)"
    and m0: "\<And>k. map_of kvs0 k = (case map_of kvs k of
                                      Some v \<Rightarrow> Some v
                                    | None \<Rightarrow> if k \<in> set ks then Some ?fill else None)"
    and o0: "\<And>x. x \<in> set kvs0 \<Longrightarrow> x \<in> set kvs \<or> snd x = ?fill"
    by blast
  have sh0: "shaped (snd x) (length gs)" if "x \<in> set kvs0" for x
  proof -
    from o0 [OF that] show ?thesis
    proof
      assume "x \<in> set kvs"
      with Cons.prems(1) r show ?thesis
        by (cases x) (auto simp: list_all_iff)
    next
      assume "snd x = ?fill"
      then show ?thesis
        by (cases "gs = []") (simp_all add: shaped_empty)
    qed
  qed
  let ?Q = "\<lambda>x y. fst y = fst x \<and> zerofilled (snd x) gs fk (snd y)"
  have "\<exists>y. (case x of (k, v) \<Rightarrow> bind (zerofill v gs fk) (\<lambda>v'. Inr (k, v'))) = Inr y \<and> ?Q x y"
    if "x \<in> set kvs0" for x
  proof -
    from Cons.IH [OF sh0 [OF that] bound] obtain v' where
      "zerofill (snd x) gs fk = Inr v'" "zerofilled (snd x) gs fk v'"
      by blast
    then show ?thesis
      by (cases x) simp
  qed
  from mapM_rel [of kvs0 _ ?Q, OF this] obtain kvs1 where
    m: "mapM (\<lambda>(k, v). bind (zerofill v gs fk) (\<lambda>v'. Inr (k, v'))) kvs0 = Inr kvs1"
    and rel: "list_all2 ?Q kvs0 kvs1"
    by blast
  have z: "zerofill r (g # gs) fk = Inr (VDict kvs1)"
    unfolding r zerofill_Cons_dict [OF ks z0] m by simp
  note k1 = keys_rel [OF rel]
  have m1: "(case map_of kvs0 k of
               None \<Rightarrow> map_of kvs1 k = None
             | Some v \<Rightarrow> \<exists>v'. map_of kvs1 k = Some v' \<and> zerofilled v gs fk v')" for k
    by (rule map_of_rel [OF rel])
  have vals: "\<exists>v. zerofilled v gs fk (snd y)" if "y \<in> set kvs1" for y
    using list_all2_right [OF rel that] by blast
  have c1: "complete_tree (VDict kvs1) (g # gs) fk"
  proof -
    have "k \<in> set (map fst kvs1)" if "k \<in> set ks" for k
    proof -
      from m0 [of k] that have "map_of kvs0 k \<noteq> None"
        by (auto split: option.splits)
      then have "k \<in> set (map fst kvs0)"
        by (simp add: map_of_eq_None_iff)
      with k1 show ?thesis by simp
    qed
    moreover have "complete_tree (snd y) gs fk" if "y \<in> set kvs1" for y
      using vals [OF that] by (auto simp: zerofilled_def)
    ultimately show ?thesis
      using ks by (auto simp: list_all_iff)
  qed
  have c2: "shaped (VDict kvs1) (length (g # gs))"
  proof -
    have "shaped (snd y) (length gs)" if "y \<in> set kvs1" for y
      using vals [OF that] by (auto simp: zerofilled_def)
    then show ?thesis
      by (auto simp: list_all_iff)
  qed
  have fill_present: "present ?fill gs fk p = present (VDict []) gs fk p"
    if "length p \<le> length gs" for p
    using that by (cases "gs = []") simp_all
  have fill_get: "(case tree_get ?fill p of Some v \<Rightarrow> v | None \<Rightarrow> VInt 0) = VInt 0"
    if "length p = length gs" for p
    using that by (cases "gs = []"; cases p) simp_all
  have path: "(tree_get (VDict kvs1) (k # p) \<noteq> None) = present r (g # gs) fk (k # p)
      \<and> (length p = length gs \<and> present r (g # gs) fk (k # p) \<longrightarrow>
            tree_get (VDict kvs1) (k # p)
            = Some (case tree_get r (k # p) of Some v \<Rightarrow> v | None \<Rightarrow> VInt 0))
      \<and> (length p < length gs \<and> present r (g # gs) fk (k # p) \<longrightarrow>
            (\<exists>kvs. tree_get (VDict kvs1) (k # p) = Some (VDict kvs)))"
    if len: "length p \<le> length gs" for k p
  proof (cases "map_of kvs k")
    case (Some v)
    with m0 [of k] have "map_of kvs0 k = Some v" by simp
    with m1 [of k] obtain v' where v': "map_of kvs1 k = Some v'" "zerofilled v gs fk v'"
      by auto
    from v'(2) len Some r v'(1) show ?thesis
      unfolding zerofilled_def by simp
  next
    case None
    show ?thesis
    proof (cases "k \<in> set ks")
      case True
      with None m0 [of k] have "map_of kvs0 k = Some ?fill" by simp
      with m1 [of k] obtain v' where v': "map_of kvs1 k = Some v'" "zerofilled ?fill gs fk v'"
        by auto
      have g: "tree_get r (k # p) = None"
        using None r by simp
      have pr: "present r (g # gs) fk (k # p) = present ?fill gs fk p"
        using None r ks True fill_present [OF len] by simp
      from v'(2) have a: "(tree_get v' p \<noteq> None) = present ?fill gs fk p"
        and b: "length p = length gs \<and> present ?fill gs fk p \<longrightarrow>
                 tree_get v' p = Some (case tree_get ?fill p of Some v \<Rightarrow> v | None \<Rightarrow> VInt 0)"
        and c: "length p < length gs \<and> present ?fill gs fk p \<longrightarrow>
                 (\<exists>kvs. tree_get v' p = Some (VDict kvs))"
        using len unfolding zerofilled_def by blast+
      from a b c fill_get [of p] show ?thesis
        unfolding pr g by (simp add: v'(1))
    next
      case False
      with None m0 [of k] have "map_of kvs0 k = None" by simp
      with m1 [of k] have "map_of kvs1 k = None" by simp
      with None False r ks show ?thesis by simp
    qed
  qed
  have "zerofilled r (g # gs) fk (VDict kvs1)"
    unfolding zerofilled_def
  proof (intro conjI allI impI)
    show "complete_tree (VDict kvs1) (g # gs) fk" by (rule c1)
    show "shaped (VDict kvs1) (length (g # gs))" by (rule c2)
  next
    fix p :: "key list" assume "length p \<le> length (g # gs)"
    then show "(tree_get (VDict kvs1) p \<noteq> None) = present r (g # gs) fk p"
      using path by (cases p) simp_all
  next
    fix p :: "key list" assume "length p = length (g # gs) \<and> present r (g # gs) fk p"
    then show "tree_get (VDict kvs1) p
               = Some (case tree_get r p of Some v \<Rightarrow> v | None \<Rightarrow> VInt 0)"
      using path by (cases p) simp_all
  next
    fix p :: "key list" assume "length p < length (g # gs) \<and> present r (g # gs) fk p"
    then show "\<exists>kvs. tree_get (VDict kvs1) p = Some (VDict kvs)"
      using path by (cases p) simp_all
  qed
  with z show ?case by blast
qed

text \<open>
  C6. \<^verbatim>\<open>zerofill\<close> leaves a complete tree (one that has every expected key at every
  grouping level) as it is. On a response nested as deep as the group-by list, with
  expected keys bound for every group, \<^verbatim>\<open>zerofill\<close> returns a tree \<open>z\<close> that is
  complete and that a second \<^verbatim>\<open>zerofill\<close> leaves unchanged; a path of keys is in \<open>z\<close>
  exactly when each of its keys is a key of the response or, where the response has
  nothing, an expected key of its level; a path down to the last level holds the
  response's value, or the scalar 0 where the response had none; and every shorter path
  holds a dictionary (the empty map inserted for an absent key, filled in turn).
\<close>

theorem zerofill_idempotent:
  "(complete_tree r gs fk \<longrightarrow> zerofill r gs fk = Inr r)
   \<and> (shaped r (length gs) \<and> (\<forall>g \<in> set gs. map_of fk g \<noteq> None) \<longrightarrow>
        (\<exists>z. zerofill r gs fk = Inr z \<and> zerofill z gs fk = Inr z \<and> complete_tree z gs fk
           \<and> (\<forall>p. length p \<le> length gs \<longrightarrow> (tree_get z p \<noteq> None) = present r gs fk p)
           \<and> (\<forall>p. length p = length gs \<and> present r gs fk p \<longrightarrow>
                  tree_get z p = Some (case tree_get r p of Some v \<Rightarrow> v | None \<Rightarrow> VInt 0))
           \<and> (\<forall>p. length p < length gs \<and> present r gs fk p \<longrightarrow>
                  (\<exists>kvs. tree_get z p = Some (VDict kvs)))))"
proof (intro conjI impI)
  assume "complete_tree r gs fk"
  then show "zerofill r gs fk = Inr r"
    by (rule complete_noop)
next
  assume "shaped r (length gs) \<and> (\<forall>g \<in> set gs. map_of fk g \<noteq> None)"
  then obtain z where z: "zerofill r gs fk = Inr z" and f: "zerofilled r gs fk z"
    using zerofill_shaped by blast
  from f have "complete_tree z gs fk"
    by (simp add: zerofilled_def)
  then have "zerofill z gs fk = Inr z"
    by (rule complete_noop)
  with z f show "\<exists>z. zerofill r gs fk = Inr z \<and> zerofill z gs fk = Inr z \<and> complete_tree z gs fk
           \<and> (\<forall>p. length p \<le> length gs \<longrightarrow> (tree_get z p \<noteq> None) = present r gs fk p)
           \<and> (\<forall>p. length p = length gs \<and> present r gs fk p \<longrightarrow>
                  tree_get z p = Some (case tree_get r p of Some v \<Rightarrow> v | None \<Rightarrow> VInt 0))
           \<and> (\<forall>p. length p < length gs \<and> present r gs fk p \<longrightarrow>
                  (\<exists>kvs. tree_get z p = Some (VDict kvs)))"
    unfolding zerofilled_def by blast
qed

theorem zerofill_idempotent_witness:
  "zerofill (VDict [(KInt 1, VDict [(KInt 10, VInt 3)])]) [''project_id'', ''group_id'']
     [(''project_id'', [KInt 1, KInt 2]), (''group_id'', [KInt 10, KInt 11])]
   = Inr (VDict [(KInt 1, VDict [(KInt 10, VInt 3), (KInt 11, VInt 0)]),
                 (KInt 2, VDict [(KInt 10, VInt 0), (KInt 11, VInt 0)])])
   \<and> complete_tree (VDict [(KInt 1, VDict [(KInt 10, VInt 3), (KInt 11, VInt 0)]),
                          (KInt 2, VDict [(KInt 10, VInt 0), (KInt 11, VInt 0)])])
        [''project_id'', ''group_id'']
        [(''project_id'', [KInt 1, KInt 2]), (''group_id'', [KInt 10, KInt 11])]
   \<and> zerofill (VDict [(KInt 1, VDict [(KInt 10, VInt 3), (KInt 11, VInt 0)]),
                     (KInt 2, VDict [(KInt 10, VInt 0), (KInt 11, VInt 0)])])
        [''project_id'', ''group_id'']
        [(''project_id'', [KInt 1, KInt 2]), (''group_id'', [KInt 10, KInt 11])]
   = Inr (VDict [(KInt 1, VDict [(KInt 10, VInt 3), (KInt 11, VInt 0)]),
                 (KInt 2, VDict [(KInt 10, VInt 0), (KInt 11, VInt 0)])])"
proof -
  let ?r = "VDict [(KInt 1, VDict [(KInt 10, VInt 3)])]"
  let ?gs = "[''project_id'', ''group_id'']"
  let ?fk = "[(''project_id'', [KInt 1, KInt 2]), (''group_id'', [KInt 10, KInt 11])]"
  let ?z = "VDict [(KInt 1, VDict [(KInt 10, VInt 3), (KInt 11, VInt 0)]),
                   (KInt 2, VDict [(KInt 10, VInt 0), (KInt 11, VInt 0)])]"
  have e: "zerofill ?r ?gs ?fk = Inr ?z"
    by code_simp
  have h: "shaped ?r (length ?gs) \<and> (\<forall>g \<in> set ?gs. map_of ?fk g \<noteq> None)"
    by (simp add: eval_nat_numeral)
  from zerofill_idempotent [of ?r ?gs ?fk, THEN conjunct2, rule_format, OF h]
  obtain z where zz: "zerofill ?r ?gs ?fk = Inr z" and c: "complete_tree z ?gs ?fk"
    by blast
  from zz e have zeq: "z = ?z"
    by simp
  from c have c': "complete_tree ?z ?gs ?fk"
    unfolding zeq .
  from zerofill_idempotent [of ?z ?gs ?fk, THEN conjunct1, rule_format, OF c']
  have "zerofill ?z ?gs ?fk = Inr ?z" .
  with e c' show ?thesis
    by blast
qed

section \<open>Properties: zero-filling and trimming\<close>




















text \<open>
  The level that \<^verbatim>\<open>trim\<close> skips is the one named \<^verbatim>\<open>time\<close>. For the two models that group
  on time by hand the level is named \<^verbatim>\<open>time_t\<close>, and with a mapping as keys \<^verbatim>\<open>trim\<close>
  filters the buckets of that level with the secondary keys: the series of
  \<^verbatim>\<open>users_affected_by_profile_group\<close> comes back empty where the series of
  \<^verbatim>\<open>users_affected_by_group\<close> has its two buckets.
\<close>

lemma trim_time_alias_example:
  "snd (get_frequency_series
          (test_externals (VDict [(KInt 1, VDict [(KInt 0, VDict [(KInt 8, VInt 5)])])]))
          users_affected_by_profile_group (KMapping [(KInt 1, [KInt 8, KInt 9])])
          0 None None None)
   = Inr (VDict [(KInt 1, VList [])])
   \<and> snd (get_frequency_series
          (test_externals (VDict [(KInt 1, VDict [(KInt 0, VDict [(KInt 8, VInt 5)])])]))
          users_affected_by_group (KMapping [(KInt 1, [KInt 8, KInt 9])])
          0 None None None)
   = Inr (VDict [(KInt 1, VList [VTuple [VInt 0, VDict [(KInt 8, VInt 5), (KInt 9, VInt 0)]],
                                 VTuple [VInt 3600, VDict [(KInt 8, VInt 0), (KInt 9, VInt 0)]]])])"
  by code_simp

end
